theory Spec2Isabelle
  imports Complex_Main
begin

section \<open>Exceptions\<close>

text \<open>
  The functions of \<^verbatim>\<open>watex/tools/exmath.py\<close> signal failure by raising. Every raise the
  model can reach is a value of \<open>error\<close>; the constructor records the place that raises,
  \<open>exception_class\<close> gives the Python class of the exception object.
\<close>

datatype error =
    EmptyReduction      \<comment> \<open>numpy: \<^verbatim>\<open>min\<close>/\<^verbatim>\<open>max\<close>/\<^verbatim>\<open>argmin\<close> of a zero-size array; builtin \<^verbatim>\<open>min\<close> of an empty sequence\<close>
  | MaskAssignMismatch  \<comment> \<open>numpy: boolean-mask assignment with the wrong number of values\<close>
  | UnpackMismatch      \<comment> \<open>tuple unpacking of a sequence of the wrong length\<close>
  | BadObjective        \<comment> \<open>\<^verbatim>\<open>ohmicArea\<close>: "Unacceptable argument ... Objective"\<close>
  | BadTypeOfOp         \<comment> \<open>\<^verbatim>\<open>vesDataOperator\<close>: "Unacceptable argument ..."\<close>
  | CouldNotConvert     \<comment> \<open>\<^verbatim>\<open>ohmicArea\<close>: "Could not convert value ... to float"\<close>
  | SizeMismatch        \<comment> \<open>\<^verbatim>\<open>vesDataOperator\<close>: "Deep measurement `AB` must have the same size ..."\<close>
  | StartDepth          \<comment> \<open>\<^verbatim>\<open>ohmicArea\<close>: "The startpoint 'ohmSkey=...' is expected to be less than ..."\<close>
  | PolyfitEmpty        \<comment> \<open>\<^verbatim>\<open>np.polyfit\<close>: "expected non-empty vector for x"\<close>
  | PolyfitLength       \<comment> \<open>\<^verbatim>\<open>np.polyfit\<close>: "expected x and y to have same length"\<close>
  | PolyfitDegree       \<comment> \<open>\<^verbatim>\<open>np.polyfit\<close>: "expected deg >= 0"\<close>
  | StationOutOfRange   \<comment> \<open>\<^verbatim>\<open>shape\<close>: "Position should be less than ..."\<close>
  | IndexOutOfRange     \<comment> \<open>indexing an empty array\<close>
  | UnevenSplit         \<comment> \<open>\<^verbatim>\<open>np.split\<close>: "array split does not result in an equal division"\<close>
  | UnboundStation      \<comment> \<open>\<^verbatim>\<open>shape\<close>: \<^verbatim>\<open>s_index\<close> read before assignment\<close>
  | RecursionLimit      \<comment> \<open>the interpreter: "maximum recursion depth exceeded"\<close>
  | BroadcastMismatch   \<comment> \<open>numpy: "operands could not be broadcast together"\<close>
  | PolyfitLinAlg       \<comment> \<open>\<^verbatim>\<open>np.polyfit\<close>: the least-squares solver did not converge\<close>
  | CastOverflow        \<comment> \<open>numpy: storing a float outside the 64-bit range into an integer array\<close>
  | NotFinite           \<comment> \<open>no exception: an infinity is stored into a float array (see \<open>cast\<close>)\<close>

datatype py_class =
  ValueError | TypeError | VESError | StationError | IndexError | UnboundLocalError
  | RecursionError | LinAlgError | OverflowError | NotRaised

fun exception_class :: "error \<Rightarrow> py_class" where
  "exception_class EmptyReduction = ValueError"
| "exception_class MaskAssignMismatch = ValueError"
| "exception_class UnpackMismatch = ValueError"
| "exception_class BadObjective = ValueError"
| "exception_class BadTypeOfOp = ValueError"
| "exception_class CouldNotConvert = ValueError"
| "exception_class SizeMismatch = VESError"
| "exception_class StartDepth = VESError"
| "exception_class PolyfitEmpty = TypeError"
| "exception_class PolyfitLength = TypeError"
| "exception_class PolyfitDegree = ValueError"
| "exception_class StationOutOfRange = StationError"
| "exception_class UnevenSplit = ValueError"
| "exception_class IndexOutOfRange = IndexError"
| "exception_class UnboundStation = UnboundLocalError"
| "exception_class RecursionLimit = RecursionError"
| "exception_class BroadcastMismatch = ValueError"
| "exception_class PolyfitLinAlg = LinAlgError"
| "exception_class CastOverflow = OverflowError"
| "exception_class NotFinite = NotRaised"

section \<open>Arrays\<close>

text \<open>
  A one-dimensional numpy array is a list. The reductions below are only called on
  non-empty lists; each caller raises \<open>EmptyReduction\<close> first, as numpy does.
\<close>

definition arr_min :: "'a::linorder list \<Rightarrow> 'a" where
  "arr_min xs = fold min (tl xs) (hd xs)"

definition arr_max :: "'a::linorder list \<Rightarrow> 'a" where
  "arr_max xs = fold max (tl xs) (hd xs)"

text \<open>Python indexing \<^verbatim>\<open>xs[i]\<close> on a non-empty list with \<open>- length xs \<le> i < length xs\<close>.\<close>

definition py_nth :: "'a list \<Rightarrow> int \<Rightarrow> 'a" where
  "py_nth xs i = (if i < 0 then xs ! nat (int (length xs) + i) else xs ! nat i)"

text \<open>
  Index arrays hold 64-bit signed integers (numpy's \<^verbatim>\<open>int64\<close>). Their elements are
  values of \<open>int\<close> between \<open>- 2 ^ 63\<close> and \<open>2 ^ 63 - 1\<close>, and the result of every
  addition and subtraction is wrapped into that range by \<open>wrap64\<close>, as numpy does (with a
  warning). \<open>np_arange start stop\<close> is \<^verbatim>\<open>np.arange(start, stop, 1)\<close> on two such integers:
  the length is computed from the wrapped difference. \<open>np_subtract\<close> is the difference
  of two arrays with numpy's broadcasting of an array of length one.
\<close>

definition wrap64 :: "int \<Rightarrow> int" where
  "wrap64 i = (i + 2 ^ 63) mod 2 ^ 64 - 2 ^ 63"

definition np_arange :: "int \<Rightarrow> int \<Rightarrow> int list" where
  "np_arange start stop = map (\<lambda>i. wrap64 (start + int i)) [0..<nat (wrap64 (stop - start))]"

definition np_subtract :: "int list \<Rightarrow> int list \<Rightarrow> error + int list" where
  "np_subtract xs ys =
     (if length xs = length ys then Inr (map2 (\<lambda>a b. wrap64 (a - b)) xs ys)
      else if length ys = 1 then Inr (map (\<lambda>a. wrap64 (a - hd ys)) xs)
      else if length xs = 1 then Inr (map (\<lambda>b. wrap64 (hd xs - b)) ys)
      else Inl BroadcastMismatch)"

section \<open>Doubles\<close>

text \<open>
  Data arrays hold IEEE 754 doubles. A finite double is the real number it denotes, so a
  data array is a list of reals; the result of an operation that can overflow is a
  \<open>double\<close>, a finite value or an infinity. \<open>fl x\<close> is the double nearest to the real
  number \<open>x\<close>, ties going to the even significand: with \<open>exponent\<close> the binary exponent
  of the magnitude (at least \<open>- 1022\<close>, where the subnormal numbers begin, and at most
  \<open>1023\<close>), the doubles around \<open>x\<close> are the multiples \<open>m * 2 ^ (exponent - 52)\<close>; a
  rounded magnitude of \<open>2 ^ 1024\<close>, that is \<open>m = 2 ^ 53\<close> at the exponent \<open>1023\<close>, is an
  infinity. \<open>d_less\<close> and \<open>d_le\<close> are the
  comparisons \<^verbatim>\<open><\<close> and \<^verbatim>\<open><=\<close> of doubles.
\<close>

datatype double = Finite real | PosInf | NegInf

definition pow2 :: "int \<Rightarrow> real" where
  "pow2 e = (if 0 \<le> e then 2 ^ nat e else 1 / 2 ^ nat (- e))"

function expo_up :: "real \<Rightarrow> int \<Rightarrow> int" where
  "expo_up a e = (if e < 1023 \<and> pow2 (e + 1) \<le> a then expo_up a (e + 1) else e)"
  by pat_completeness auto
termination
  by (relation "measure (\<lambda>(a, e). nat (1023 - e))") auto

function expo_down :: "real \<Rightarrow> int \<Rightarrow> int" where
  "expo_down a e = (if - 1022 < e \<and> a < pow2 e then expo_down a (e - 1) else e)"
  by pat_completeness auto
termination
  by (relation "measure (\<lambda>(a, e). nat (e + 1022))") auto

declare expo_up.simps [simp del] expo_down.simps [simp del]

definition exponent :: "real \<Rightarrow> int" where
  "exponent a = (if 1 \<le> a then expo_up a 0 else expo_down a 0)"

definition round_half_even :: "real \<Rightarrow> int" where
  "round_half_even y =
     (let f = \<lfloor>y\<rfloor>; d = y - of_int f
      in if d < 1 / 2 then f else if 1 / 2 < d then f + 1 else if even f then f else f + 1)"

definition fl :: "real \<Rightarrow> double" where
  "fl x =
     (let e = exponent \<bar>x\<bar>;
          u = pow2 (e - 52);
          m = round_half_even (x / u)
      in if e = 1023 \<and> 2 ^ 53 \<le> m then PosInf
         else if e = 1023 \<and> m \<le> - (2 ^ 53) then NegInf
         else Finite (of_int m * u))"

fun d_less :: "double \<Rightarrow> double \<Rightarrow> bool" where
  "d_less (Finite a) (Finite b) = (a < b)"
| "d_less (Finite a) PosInf = True"
| "d_less NegInf (Finite b) = True"
| "d_less NegInf PosInf = True"
| "d_less a b = False"

definition d_le :: "double \<Rightarrow> double \<Rightarrow> bool" where
  "d_le a b = (d_less a b \<or> a = b)"

section \<open>Integration bounds\<close>

text \<open>
  Both bound finders append to the list \<open>b0\<close> they are given and return that same list
  object. The model passes the contents of \<open>b0\<close> in and gives them back: \<open>Inr b\<close> when
  the call returns \<open>b0\<close> holding \<open>b\<close>, \<open>Inl (e, b)\<close> when it raises \<open>e\<close> and leaves
  \<open>b0\<close> holding \<open>b\<close>.
\<close>

type_synonym bounds_result = "(error \<times> int list) + int list"

text \<open>
  The \<^verbatim>\<open>for jj, v in enumerate(ix_arr)\<close> loop of \<^verbatim>\<open>find_limit_for_integration\<close>; the
  state is \<open>(s, oc, b0)\<close>. \<^verbatim>\<open>ix_arr[jj-1]\<close> is Python indexing: at \<open>jj = 0\<close> it reads the
  last element. The function is a loop: it needs one activation, whatever the array.
\<close>

fun limit_loop :: "int list \<Rightarrow> nat \<Rightarrow> int list \<Rightarrow> int \<times> int \<times> int list \<Rightarrow> int \<times> int \<times> int list" where
  "limit_loop ix_arr jj [] st = st"
| "limit_loop ix_arr jj (v # vs) (s, oc, b0) =
     (if wrap64 (v - s) \<noteq> 1
      then limit_loop ix_arr (Suc jj) vs (v, v, b0 @ [oc, py_nth ix_arr (int jj - 1)])
      else limit_loop ix_arr (Suc jj) vs (v, oc, b0))"

definition find_limit_for_integration :: "int list \<Rightarrow> int list \<Rightarrow> bounds_result" where
  "find_limit_for_integration ix_arr b0 =
     (if ix_arr = [] then Inl (EmptyReduction, b0)
      else
        let m = arr_min ix_arr;
            (s, oc, b1) = limit_loop ix_arr 0 ix_arr (wrap64 (m - 1), m, b0);
            v = last ix_arr
        in if v = py_nth ix_arr (- 1) then Inr (b1 @ [oc, v]) else Inr b1)"

text \<open>
  \<^verbatim>\<open>find_bound_for_integration\<close> calls itself once for every run of consecutive
  indices, and every call is a new activation of the interpreter, which allows only so
  many of them (\<^verbatim>\<open>sys.getrecursionlimit()\<close>, 1000 unless changed, less the activations
  already open). The first argument \<open>frames\<close> is the number of nested activations of
  the function that are still allowed: with none left the call raises
  \<^verbatim>\<open>RecursionError\<close>, and the list \<open>b0\<close> keeps what the outer activations appended.

  \<open>psdiff\<close> is \<^verbatim>\<open>np.arange(min, len + min, 1)\<close>, \<open>index\<close> the positions where
  \<^verbatim>\<open>ix_arr - psdiff\<close> is zero. The builtin \<^verbatim>\<open>min\<close> of an empty selection raises.
\<close>

fun find_bound_for_integration :: "nat \<Rightarrow> int list \<Rightarrow> int list \<Rightarrow> bounds_result" where
  "find_bound_for_integration 0 ix_arr b0 = Inl (RecursionLimit, b0)"
| "find_bound_for_integration (Suc frames) ix_arr b0 =
     (if ix_arr = [] then Inl (EmptyReduction, b0)
      else
        let m = arr_min ix_arr;
            psdiff = np_arange m (wrap64 (int (length ix_arr) + m))
        in case np_subtract ix_arr psdiff of
             Inl e \<Rightarrow> Inl (e, b0)
           | Inr diff \<Rightarrow>
               let index = filter (\<lambda>i. diff ! i = 0) [0..<length diff]
               in if list_ex (\<lambda>i. length ix_arr \<le> i) index then Inl (IndexOutOfRange, b0)
                  else if index = [] then Inl (EmptyReduction, b0)
                  else
                    let sel = map (\<lambda>i. ix_arr ! i) index;
                        b1 = b0 @ [arr_min sel, arr_max sel];
                        array_init = drop (arr_max index + 1) ix_arr
                    in if array_init = [] then Inr b1
                       else find_bound_for_integration frames array_init b1)"

declare find_bound_for_integration.simps [simp del]

text \<open>
  The default value \<^verbatim>\<open>b0=[]\<close> of either function is one list object, created when the
  function is defined and used by every call that passes no \<open>b0\<close>. \<open>defaults\<close> is the
  module state holding both default lists; a call without \<open>b0\<close> reads and writes it.
\<close>

record defaults =
  limit_b0 :: "int list"
  bound_b0 :: "int list"

definition module_loaded :: defaults where
  "module_loaded = \<lparr>limit_b0 = [], bound_b0 = []\<rparr>"

definition contents :: "bounds_result \<Rightarrow> int list" where
  "contents r = (case r of Inl (e, b) \<Rightarrow> b | Inr b \<Rightarrow> b)"

definition outcome :: "bounds_result \<Rightarrow> error + int list" where
  "outcome r = (case r of Inl (e, b) \<Rightarrow> Inl e | Inr b \<Rightarrow> Inr b)"

definition call_find_bound :: "nat \<Rightarrow> int list \<Rightarrow> defaults \<Rightarrow> (error + int list) \<times> defaults" where
  "call_find_bound frames a st =
     (let r = find_bound_for_integration frames a (bound_b0 st)
      in (outcome r, st\<lparr>bound_b0 := contents r\<rparr>))"

definition call_find_limit :: "int list \<Rightarrow> defaults \<Rightarrow> (error + int list) \<times> defaults" where
  "call_find_limit a st =
     (let r = find_limit_for_integration a (limit_b0 st)
      in (outcome r, st\<lparr>limit_b0 := contents r\<rparr>))"

text \<open>
  Auxiliary notions for reasoning about the two finders on increasing index arrays:
  \<open>run_len p vs\<close> is the number of leading elements of \<open>vs\<close> that continue the unit-step
  run ending in \<open>p\<close>; \<open>n_runs\<close> is the number of runs of a non-empty array; \<open>loop2\<close> is
  the loop of \<open>limit_loop\<close> with the look-up \<^verbatim>\<open>ix_arr[jj-1]\<close> replaced by the previous
  element \<open>s\<close>; \<open>fin\<close> closes the last run; \<open>int64_index\<close> holds of the arrays of
  non-negative 64-bit indices.
\<close>

fun run_len :: "int \<Rightarrow> int list \<Rightarrow> nat" where
  "run_len p [] = 0"
| "run_len p (v # vs) = (if v = p + 1 then Suc (run_len v vs) else 0)"

fun n_breaks :: "int \<Rightarrow> int list \<Rightarrow> nat" where
  "n_breaks p [] = 0"
| "n_breaks p (v # vs) = (if v = p + 1 then n_breaks v vs else Suc (n_breaks v vs))"

definition n_runs :: "int list \<Rightarrow> nat" where
  "n_runs ix_arr = Suc (n_breaks (hd ix_arr) (tl ix_arr))"

definition int64_index :: "int list \<Rightarrow> bool" where
  "int64_index ix_arr = (list_all (\<lambda>i. 0 \<le> i \<and> i < 2 ^ 63) ix_arr \<and> int (length ix_arr) < 2 ^ 63)"

fun loop2 :: "int list \<Rightarrow> int \<times> int \<times> int list \<Rightarrow> int \<times> int \<times> int list" where
  "loop2 [] st = st"
| "loop2 (v # vs) (s, oc, b0) =
     (if v - s \<noteq> 1 then loop2 vs (v, v, b0 @ [oc, s]) else loop2 vs (v, oc, b0))"

definition fin :: "int \<times> int \<times> int list \<Rightarrow> int list" where
  "fin st = (case st of (s, oc, b) \<Rightarrow> b @ [oc, s])"


section \<open>Anomaly shape\<close>

text \<open>
  \<^verbatim>\<open>shape(cz, s=..., p=...)\<close>. The station argument \<open>s\<close> is left at its default
  (\<open>Unset\<close>, the \<^verbatim>\<open>Ellipsis\<close> object), is \<^verbatim>\<open>None\<close> (\<open>NoStation\<close>) or is an integer index;
  station names given as strings, which are resolved through the positions \<open>p\<close>, are
  outside this model. The test \<^verbatim>\<open>s is (None or ...)\<close> compares with \<^verbatim>\<open>Ellipsis\<close> only, so
  \<^verbatim>\<open>None\<close> takes neither branch and \<^verbatim>\<open>s_index\<close> stays unbound.

  \<open>argmin\<close> is \<^verbatim>\<open>np.argmin\<close> (first index of the minimum), \<open>slice_to xs j\<close> and
  \<open>slice_from xs i\<close> are the Python slices \<^verbatim>\<open>xs[:j]\<close> and \<^verbatim>\<open>xs[i:]\<close>,
  \<open>argrelextrema\<close> is scipy's with \<^verbatim>\<open>order=1, mode='clip'\<close> (neighbour indices are
  clipped to the array, so with a strict comparator the end points never qualify), and
  \<open>median\<close> is \<^verbatim>\<open>np.median\<close> on a non-empty array of finite doubles: the middle element
  of the sorted array, or \<^verbatim>\<open>np.mean\<close> of the two middle elements, which is their rounded
  sum divided by two.
\<close>

datatype station = Unset | NoStation | Index int

definition argmin :: "'a::linorder list \<Rightarrow> nat" where
  "argmin xs = length (takeWhile (\<lambda>x. x \<noteq> arr_min xs) xs)"

definition slice_to :: "'a list \<Rightarrow> int \<Rightarrow> 'a list" where
  "slice_to xs j = (if j < 0 then take (nat (int (length xs) + j)) xs else take (nat j) xs)"

definition slice_from :: "'a list \<Rightarrow> int \<Rightarrow> 'a list" where
  "slice_from xs i = (if i < 0 then drop (nat (int (length xs) + i)) xs else drop (nat i) xs)"

definition argrelextrema :: "real list \<Rightarrow> (real \<Rightarrow> real \<Rightarrow> bool) \<Rightarrow> nat list" where
  "argrelextrema data comparator =
     filter (\<lambda>i. comparator (data ! i) (data ! min (i + 1) (length data - 1))
               \<and> comparator (data ! i) (data ! (i - 1)))
       [0..<length data]"

definition median :: "real list \<Rightarrow> double" where
  "median xs =
     (let srt = sort xs; n = length xs
      in if even n then
           (case fl (srt ! (n div 2 - 1) + srt ! (n div 2)) of
              Finite acc \<Rightarrow> fl (acc / 2)
            | PosInf \<Rightarrow> PosInf
            | NegInf \<Rightarrow> NegInf)
         else Finite (srt ! (n div 2)))"

text \<open>\<open>np_multiply k cz\<close> is the product \<^verbatim>\<open>k * cz\<close> of a float and an array: every product is
  rounded.\<close>

definition np_multiply :: "real \<Rightarrow> real list \<Rightarrow> double list" where
  "np_multiply k cz = map (\<lambda>x. fl (k * x)) cz"

definition station_index :: "real list \<Rightarrow> station \<Rightarrow> error + int" where
  "station_index cz s =
     (case s of
        Unset \<Rightarrow> if cz = [] then Inl EmptyReduction else Inr (int (argmin cz))
      | NoStation \<Rightarrow> Inl UnboundStation
      | Index i \<Rightarrow> Inr i)"

text \<open>
  In the decision chain, \<^verbatim>\<open>(ls and rs) > med\<close> compares \<open>rs\<close> with the median when \<open>ls\<close>
  is non-zero and \<open>ls\<close> otherwise; \<^verbatim>\<open>lbound[0]\<close> and \<^verbatim>\<open>rbound[-1]\<close> raise on an empty
  slice.
\<close>

definition shape :: "real list \<Rightarrow> station \<Rightarrow> error + string" where
  "shape cz s =
     (case station_index cz s of
        Inl e \<Rightarrow> Inl e
      | Inr s_index \<Rightarrow>
          if s_index \<ge> int (length cz) then Inl StationOutOfRange
          else
            let lbound = slice_to cz (s_index + 1);
                rbound = slice_from cz s_index
            in if lbound = [] \<or> rbound = [] then Inl IndexOutOfRange
               else
                 let ls = hd lbound;
                     rs = last rbound;
                     lminls = argrelextrema lbound (<);
                     lminrs = argrelextrema rbound (<);
                     lmaxls = argrelextrema lbound (>);
                     lmaxrs = argrelextrema rbound (>);
                     med = median cz
                 in if (d_le med (Finite ls) \<and> d_less (Finite rs) med)
                       \<or> (d_less (Finite ls) med \<and> d_le med (Finite rs)) then
                      (if length lminls = 0 \<and> length lminrs = 0 then Inr ''C''
                       else if (length lminls = 0 \<and> length lminrs \<noteq> 0)
                               \<or> (length lminls \<noteq> 0 \<and> length lminrs = 0) then Inr ''K''
                       else Inr ''V'')
                    else if d_less med (Finite (if ls \<noteq> 0 then rs else ls)) then
                      (if length lminls = 0 \<and> length lminrs = 0 then Inr ''U''
                       else if (length lminls = 0 \<and> length lminrs = 1)
                               \<or> (length lminrs = 0 \<and> length lminls = 1) then Inr ''H''
                       else if length lminls \<ge> 1 \<and> length lminrs \<ge> 1 then Inr ''W''
                       else Inr ''V'')
                    else if d_less (Finite ls) med \<and> d_less (Finite rs) med then
                      (if (length lmaxls \<ge> 1 \<and> length lmaxrs \<ge> 0)
                          \<or> (length lmaxls \<le> 0 \<and> length lmaxrs \<ge> 1) then Inr ''M''
                       else Inr ''V'')
                    else Inr ''V'')"

section \<open>Duplicated electrode spacings\<close>

text \<open>
  \<^verbatim>\<open>vesDataOperator(AB, rhoa, data, typeofop, outdf)\<close>, called with the two arrays (a
  \<^verbatim>\<open>data\<close> frame only supplies them) and \<^verbatim>\<open>outdf=False\<close>. An array carries its numpy
  dtype: \<^verbatim>\<open>d0 = np.zeros_like(dup_values)\<close> has the dtype of \<open>AB\<close>. \<open>cast\<close> is the store
  \<^verbatim>\<open>d0[ii] = value\<close> of one float: into an integer array the value is truncated, and a
  value beyond the 64-bit range raises \<^verbatim>\<open>OverflowError\<close>; an infinity stored into a float
  array raises nothing, but the arrays of the model hold finite doubles, and the model
  ends with \<open>NotFinite\<close> there. \<open>astype\<close> is the conversion of the values of \<open>d0\<close>
  when they are assigned to \<open>Y\<close>. \<open>mean\<close> is the exact mean; the rounding of the sum
  in \<^verbatim>\<open>np.mean\<close> is not modelled.

  \<^item> \<open>lower\<close> is \<^verbatim>\<open>str.lower\<close> on ASCII text, \<open>py_str\<close> is \<^verbatim>\<open>str\<close> of \<^verbatim>\<open>None\<close> or of a string.
  \<^item> \<open>np_unique\<close> is \<^verbatim>\<open>np.unique(..., return_index=True)\<close>: the sorted distinct values and
    the index of the first occurrence of each.
  \<^item> \<open>duplicated_values\<close> is \<^verbatim>\<open>AB_[~mask]\<close>: every element that is not the first occurrence
    of its value, in array order (a value occurring three times is listed twice).
  \<^item> The result \<^verbatim>\<open>indexes\<close> of \<^verbatim>\<open>np.where(AB_ == dup_values)\<close> is never read. In the numpy
    releases the module was written for, comparing arrays of different lengths gives
    \<^verbatim>\<open>False\<close> with a warning, so the statement has no effect and is left out.
  \<^item> \<open>aggregate\<close> is the \<^verbatim>\<open>if/elif\<close> chain of the loop; for \<^verbatim>\<open>leaveoneout\<close> the
    parameter \<open>draw\<close> stands for the random generator: \<open>draw ii sel\<close> picks the element
    of \<open>sel\<close> that the permutation of the \<open>ii\<close>-th iteration puts first. \<open>collect\<close>
    runs the loop: it ends at the first store that raises.
  \<^item> \<open>mask_assign\<close> is \<^verbatim>\<open>Y[maskr] = d0\<close>: the values fill the selected slots in order; a
    single value is broadcast; any other number of values than selected slots raises.
\<close>

datatype dtype = Int64 | Float64

type_synonym ndarray = "dtype \<times> real list"

definition astype :: "dtype \<Rightarrow> real \<Rightarrow> real" where
  "astype dt v = (case dt of Float64 \<Rightarrow> v
                  | Int64 \<Rightarrow> if 0 \<le> v then of_int \<lfloor>v\<rfloor> else of_int \<lceil>v\<rceil>)"

definition cast :: "dtype \<Rightarrow> double \<Rightarrow> error + real" where
  "cast dt v =
     (case v of
        Finite r \<Rightarrow>
          (case dt of
             Float64 \<Rightarrow> Inr r
           | Int64 \<Rightarrow>
               let t = (if 0 \<le> r then \<lfloor>r\<rfloor> else \<lceil>r\<rceil>)
               in if - (2 ^ 63) \<le> t \<and> t < 2 ^ 63 then Inr (of_int t) else Inl CastOverflow)
      | PosInf \<Rightarrow> (case dt of Float64 \<Rightarrow> Inl NotFinite | Int64 \<Rightarrow> Inl CastOverflow)
      | NegInf \<Rightarrow> (case dt of Float64 \<Rightarrow> Inl NotFinite | Int64 \<Rightarrow> Inl CastOverflow))"

fun collect :: "(error + 'a) list \<Rightarrow> error + 'a list" where
  "collect [] = Inr []"
| "collect (Inl e # rest) = Inl e"
| "collect (Inr v # rest) = (case collect rest of Inl e \<Rightarrow> Inl e | Inr vs \<Rightarrow> Inr (v # vs))"

definition lower :: "string \<Rightarrow> string" where
  "lower s = map (\<lambda>c. case map_of (zip ''ABCDEFGHIJKLMNOPQRSTUVWXYZ'' ''abcdefghijklmnopqrstuvwxyz'') c of
                         None \<Rightarrow> c | Some l \<Rightarrow> l) s"

definition py_str :: "string option \<Rightarrow> string" where
  "py_str v = (case v of None \<Rightarrow> ''None'' | Some s \<Rightarrow> s)"

definition first_index :: "'a list \<Rightarrow> 'a \<Rightarrow> nat" where
  "first_index xs x = length (takeWhile (\<lambda>y. y \<noteq> x) xs)"

definition np_unique :: "real list \<Rightarrow> real list \<times> nat list" where
  "np_unique xs = (let u = sort (remdups xs) in (u, map (first_index xs) u))"

definition np_where_eq :: "real list \<Rightarrow> real \<Rightarrow> nat list" where
  "np_where_eq xs d = filter (\<lambda>i. xs ! i = d) [0..<length xs]"

definition mean :: "real list \<Rightarrow> real" where
  "mean xs = sum_list xs / real (length xs)"

fun put_masked :: "real list \<Rightarrow> bool list \<Rightarrow> real list \<Rightarrow> real list" where
  "put_masked (y # ys) (True # ms) (v # vs) = v # put_masked ys ms vs"
| "put_masked (y # ys) (False # ms) vs = y # put_masked ys ms vs"
| "put_masked ys ms vs = ys"

definition mask_assign :: "dtype \<Rightarrow> real list \<Rightarrow> bool list \<Rightarrow> real list \<Rightarrow> error + real list" where
  "mask_assign dt ys msk vs =
     (let n = length (filter id msk);
          vs' = (if length vs = 1 then replicate n (hd vs) else vs)
      in if length vs' \<noteq> n then Inl MaskAssignMismatch
         else Inr (put_masked ys msk (map (astype dt) vs')))"

definition duplicated_values :: "real list \<Rightarrow> real list" where
  "duplicated_values AB' =
     (let rindex = snd (np_unique AB');
          mask = map (\<lambda>i. i \<in> set rindex) [0..<length AB']
      in map (\<lambda>i. AB' ! i) (filter (\<lambda>i. \<not> mask ! i) [0..<length AB']))"

definition aggregate :: "(nat \<Rightarrow> real list \<Rightarrow> nat) \<Rightarrow> string \<Rightarrow> nat \<Rightarrow> real list \<Rightarrow> double" where
  "aggregate draw typeofop ii sel =
     (if typeofop = ''mean'' then Finite (mean sel)
      else if typeofop = ''median'' then median sel
      else Finite (sel ! (draw ii sel mod length sel)))"

definition vesDataOperator ::
  "(nat \<Rightarrow> real list \<Rightarrow> nat) \<Rightarrow> ndarray \<Rightarrow> ndarray \<Rightarrow> string option \<Rightarrow> error + ndarray \<times> ndarray" where
  "vesDataOperator draw AB rhoa typeofop =
     (let typeofop = lower (py_str typeofop) in
      if typeofop \<notin> set [''none'', ''mean'', ''median'', ''leaveoneout''] then Inl BadTypeOfOp
      else
        let typeofop = (if typeofop = ''none'' then ''mean'' else typeofop) in
        if length (snd AB) \<noteq> length (snd rhoa) then Inl SizeMismatch
        else
          let AB' = snd AB; rhoa' = snd rhoa;
              dup_values = duplicated_values AB';
              (X, rindex) = np_unique AB';
              Y = map (\<lambda>i. rhoa' ! i) rindex;
              stores = map (\<lambda>(ii, d).
                          let index = np_where_eq AB' d
                          in cast (fst AB) (aggregate draw typeofop ii (map (\<lambda>i. rhoa' ! i) index)))
                        (enumerate 0 dup_values);
              maskr = map (\<lambda>x. x \<in> set dup_values) X
          in case collect stores of
               Inl e \<Rightarrow> Inl e
             | Inr d0 \<Rightarrow>
                 (case mask_assign (fst rhoa) Y maskr d0 of
                    Inl e \<Rightarrow> Inl e
                  | Inr Y' \<Rightarrow> Inr ((fst AB, X), (fst rhoa, Y'))))"

section \<open>The deprecated shape function\<close>

text \<open>
  \<^verbatim>\<open>get_shape(rhoa_range)\<close>, deprecated in favour of \<^verbatim>\<open>shape\<close>, classifies by the mean
  line instead of the median. Its docstring carries the example zone
  \<open>[60, 70, 65, 40, 30, 31, 34, 40, 38, 50, 61, 90]\<close> with the result \<open>U\<close>. The index
  \<^verbatim>\<open>argrelextrema(minlocals_slices, np.greater)[0][0]\<close> raises when the slice has no local
  maximum; it is only evaluated when the last value lies below the mean.
\<close>

definition get_shape :: "real list \<Rightarrow> error + string" where
  "get_shape rhoa_range =
     (let minlocals = argrelextrema rhoa_range (<);
          average_curve = mean rhoa_range
      in if length minlocals > 1 then
           let minlocals_slices = take (last minlocals + 1 - hd minlocals) (drop (hd minlocals) rhoa_range);
               average_minlocals_slices = mean minlocals_slices
           in if average_curve \<ge> 12 / 10 * average_minlocals_slices then
                (if last rhoa_range < average_curve then
                   (case argrelextrema minlocals_slices (>) of
                      [] \<Rightarrow> Inl IndexOutOfRange
                    | ix # rest \<Rightarrow>
                        if last rhoa_range > minlocals_slices ! ix then Inr ''K'' else Inr ''U'')
                 else Inr ''U'')
              else if hd rhoa_range < average_curve \<and> last rhoa_range < average_curve then Inr ''M''
              else Inr ''W''
         else if length minlocals = 1 then
           (if hd rhoa_range < average_curve \<and> last rhoa_range < average_curve then Inr ''M''
            else if last rhoa_range \<le> average_curve then Inr ''C''
            else Inr ''V'')
         else Inr ''V'')"

section \<open>Curve fitting\<close>

text \<open>
  The numeric libraries are parameters of the model: \<open>np_sin\<close> and \<open>np_deg2rad\<close> are
  numpy's functions of these names, \<open>lstsq nl x y deg\<close> is the outcome of the scaled
  least-squares solve that \<^verbatim>\<open>np.polyfit(x, y, deg)\<close> runs once its arguments have passed
  its checks, either the coefficient vector (highest power first) or \<open>None\<close> when the
  solver raises \<^verbatim>\<open>LinAlgError\<close> (it does when the matrix it is given holds a value that
  is not finite), and \<open>quad nl f a b\<close> is the pair (integral, error estimate) returned
  by \<^verbatim>\<open>scipy.integrate.quad(f, a=a, b=b)\<close>.

  \<open>np_polyfit\<close> has the argument checks of \<^verbatim>\<open>np.polyfit\<close> for one-dimensional arrays, in
  numpy's order: a negative degree, an empty \<open>x\<close>, different lengths. It then divides
  every column of the Vandermonde matrix by its norm. When every abscissa is zero and the
  degree is positive, a column is zero, the division gives \<open>0/0\<close> and the solver raises
  on the matrix it is given. A fit that is under-determined (fewer points than
  coefficients) only warns. \<open>poly1d\<close> evaluates a coefficient
  vector, \<open>linspace\<close> is \<^verbatim>\<open>np.linspace\<close> (end point included), and \<open>n_samples\<close> is the
  sample count 1000 that \<^verbatim>\<open>fitfunc\<close> defaults to and \<^verbatim>\<open>ohmicArea\<close> writes out.
  \<^verbatim>\<open>fitfunc\<close> itself checks nothing: it counts the local extrema of \<open>y\<close>, calls
  \<^verbatim>\<open>np.polyfit\<close> and samples the polynomial; the returned callable is represented by its
  coefficients.
\<close>

record numerics =
  np_sin :: "real \<Rightarrow> real"
  np_deg2rad :: "real \<Rightarrow> real"
  lstsq :: "real list \<Rightarrow> real list \<Rightarrow> nat \<Rightarrow> real list option"
  quad :: "(real \<Rightarrow> real) \<Rightarrow> real \<Rightarrow> real \<Rightarrow> real \<times> real"

definition np_polyfit :: "numerics \<Rightarrow> real list \<Rightarrow> real list \<Rightarrow> int \<Rightarrow> error + real list" where
  "np_polyfit nl x y deg =
     (if deg < 0 then Inl PolyfitDegree
      else if x = [] then Inl PolyfitEmpty
      else if length x \<noteq> length y then Inl PolyfitLength
      else if 0 < deg \<and> list_all (\<lambda>v. v = 0) x then Inl PolyfitLinAlg
      else (case lstsq nl x y (nat deg) of
              None \<Rightarrow> Inl PolyfitLinAlg
            | Some coeff \<Rightarrow> Inr coeff))"

definition poly1d :: "real list \<Rightarrow> real \<Rightarrow> real" where
  "poly1d coeff x = foldl (\<lambda>acc c. acc * x + c) 0 coeff"

definition linspace :: "real \<Rightarrow> real \<Rightarrow> nat \<Rightarrow> real list" where
  "linspace start stop num =
     map (\<lambda>i. start + real i * ((stop - start) / real (num - 1))) [0..<num]"

definition n_samples :: nat where
  "n_samples = 1000"

definition fitfunc ::
  "numerics \<Rightarrow> real list \<Rightarrow> real list \<Rightarrow> int option \<Rightarrow> nat \<Rightarrow> error + real list \<times> real list \<times> real list" where
  "fitfunc nl x y deg sample =
     (let minl = argrelextrema y (<);
          maxl = argrelextrema y (>);
          degree = length minl + length maxl
      in case np_polyfit nl x y (case deg of Some d \<Rightarrow> d | None \<Rightarrow> int degree + 1) of
           Inl e \<Rightarrow> Inl e
         | Inr coeff \<Rightarrow>
             let f = coeff;
                 xn = linspace (arr_min x) (arr_max x) sample;
                 yp = map (poly1d f) xn
             in Inr (f, xn, yp))"

text \<open>\<^verbatim>\<open>dummy_basement_curve(func, ks, slope=45)\<close>: the line through \<open>(0, func(ks))\<close> with the
  sine of the angle as slope.\<close>

definition dummy_basement_curve ::
  "numerics \<Rightarrow> (real \<Rightarrow> real) \<Rightarrow> real \<Rightarrow> real \<Rightarrow> (real \<Rightarrow> real) \<times> real" where
  "dummy_basement_curve nl func ks slope =
     (let beta = func ks;
          slope = np_sin nl (np_deg2rad nl slope);
          func45 = (\<lambda>x. slope * x + beta)
      in (func45, beta))"

section \<open>Ohmic area\<close>

text \<open>
  \<^verbatim>\<open>ohmicArea(data, ohmSkey, sum, objective, **kws)\<close>, with the keyword arguments that
  reach \<^verbatim>\<open>vesDataOperator\<close> (\<open>AB\<close>, \<open>rhoa\<close>, \<open>typeofop\<close>) written out. The function is
  modelled in the order of its statements:

  \<^enum> \<open>normalise_objective\<close>: the \<^verbatim>\<open>objective\<close> text is lower-cased, mapped to \<open>ohms\<close> or
    \<open>graph\<close> by the first key it contains (\<open>contains s sub\<close> is \<^verbatim>\<open>s.find(sub) >= 0\<close>), and
    refused when it is none of the known words;
  \<^enum> \<open>vesDataOperator\<close> reduces the duplicated spacings;
  \<^enum> \<open>key_depth\<close>: the \<^verbatim>\<open>try\<close> block that turns \<^verbatim>\<open>ohmSkey\<close> into a float;
  \<^enum> the comparison of the key depth with \<^verbatim>\<open>X.max()\<close>;
  \<^enum> \<open>ohmic_numerics\<close>: fits, sampling, bounds, integration and the selection of the
    output.
\<close>

fun contains :: "string \<Rightarrow> string \<Rightarrow> bool" where
  "contains [] sub = (sub = [])"
| "contains (c # cs) sub = (take (length sub) (c # cs) = sub \<or> contains cs sub)"

definition objkeys :: "string list" where
  "objkeys = [''ohms'', ''none'', ''eval'', ''area'', ''ohmic'', ''true'',
              ''plot'', ''mpl'', ''false'', ''graph'', ''visual'', ''view'']"

fun objective_loop :: "(string \<times> string) list \<Rightarrow> string \<Rightarrow> string" where
  "objective_loop [] objective = objective"
| "objective_loop ((oo, pp) # rest) objective =
     (if contains objective oo then ''ohms''
      else if contains objective pp then ''graph''
      else objective_loop rest objective)"

definition normalise_objective :: "string \<Rightarrow> error + string" where
  "normalise_objective objective =
     (let objective = lower objective;
          compout = take (length objkeys div 2) objkeys;
          viewout = drop (length objkeys div 2) objkeys;
          objective = objective_loop (zip compout viewout) objective
      in if objective \<notin> set (objkeys @ [''full'', ''coverall'']) then Inl BadObjective
         else Inr objective)"

text \<open>
  The key depth is \<^verbatim>\<open>None\<close>, a number or a string. \<^verbatim>\<open>str(ohmSkey).lower().replace('m', '')\<close>
  removes every \<open>m\<close>; a text that contains \<open>none\<close> selects half the maximal spacing,
  any other text goes to \<^verbatim>\<open>float\<close>, here the parameter \<open>py_float\<close> (\<open>None\<close> when
  \<^verbatim>\<open>float\<close> raises). The decimal text of a number holds neither \<open>m\<close> nor \<open>none\<close> and
  reads back as the same number. Any exception inside the \<^verbatim>\<open>try\<close> block, also
  \<^verbatim>\<open>X.max()\<close> of an empty array, is turned into the "Could not convert" \<^verbatim>\<open>ValueError\<close>.
\<close>

datatype keydepth = KeyNone | KeyNum real | KeyStr string

definition key_depth :: "(string \<Rightarrow> real option) \<Rightarrow> keydepth \<Rightarrow> real list \<Rightarrow> error + real" where
  "key_depth py_float ohmSkey X =
     (case ohmSkey of
        KeyNum r \<Rightarrow> Inr r
      | _ \<Rightarrow>
          let text = filter (\<lambda>c. c \<noteq> CHR ''m'')
                       (lower (case ohmSkey of KeyStr s \<Rightarrow> s | _ \<Rightarrow> ''None''))
          in if contains text ''none''
             then (if X = [] then Inl CouldNotConvert else Inr (arr_max X / 2))
             else (case py_float text of None \<Rightarrow> Inl CouldNotConvert | Some r \<Rightarrow> Inr r))"

text \<open>
  The integration loop. \<open>split_roots\<close> builds the list \<^verbatim>\<open>pairwise_r\<close>; \<open>area_loop\<close> runs over
  \<^verbatim>\<open>enumerate(pairwise_r)\<close>, unpacks each entry into \<^verbatim>\<open>(inf, sup)\<close> and writes the clamped
  integral and the error estimate into slot \<open>ii\<close> of the two arrays, which start as
  zeros.
\<close>

definition np_split :: "real list \<Rightarrow> nat \<Rightarrow> error + real list list" where
  "np_split xs k =
     (if length xs mod k \<noteq> 0 then Inl UnevenSplit
      else Inr (map (\<lambda>j. take (length xs div k) (drop (j * (length xs div k)) xs)) [0..<k]))"

definition split_roots :: "real list \<Rightarrow> error + real list list" where
  "split_roots roots =
     (if length roots > 2 then np_split roots (length roots div 2) else Inr [roots])"

fun area_loop ::
  "(real \<Rightarrow> real \<Rightarrow> real \<times> real) \<Rightarrow> (nat \<times> real list) list \<Rightarrow> real list \<times> real list
     \<Rightarrow> error + real list \<times> real list" where
  "area_loop q [] st = Inr st"
| "area_loop q ((ii, pair) # rest) (ohmS, err_ohmS) =
     (case pair of
        [inf', sup'] \<Rightarrow>
          let (values, err) = q inf' sup'
          in area_loop q rest (ohmS[ii := (if values < 0 then 0 else values)], err_ohmS[ii := err])
      | _ \<Rightarrow> Inl UnpackMismatch)"

datatype areas = PerInterval "real list" | Summed real

type_synonym ohm_part = "areas \<times> real list \<times> real list"
type_synonym view_part = "(real \<times> real) list \<times> (real \<times> real) list \<times> (real \<times> real) list"

text \<open>
  \<open>basement_indexes\<close>: the basement line anchored at the key depth, the 1000 sample
  points over the spacings from the key depth on, and the indices at which the masked
  difference (\<^verbatim>\<open>np.ma.masked_where(diff_arr < 0, ...)\<close>, then \<^verbatim>\<open>.nonzero()\<close>) is neither
  masked nor zero. \<open>integration_bounds\<close>: the \<^verbatim>\<open>try\<close>/\<^verbatim>\<open>except\<close> around the two bound
  finders, each given a fresh list; whatever the recursive finder raises, the iterative
  one is run instead. \<open>frames\<close> is the number of nested activations that the interpreter
  still allows the recursive finder when \<^verbatim>\<open>ohmicArea\<close> calls it. \<open>select_output\<close>: the final loop that blanks one of
  the two result tuples. The integrand \<open>ff\<close> is the difference of the polynomial fitted to
  the part of the curve from the key depth on (\<open>f45\<close>) and the polynomial fitted to the
  whole curve (\<open>f_rhotl\<close>).
\<close>

definition basement_indexes ::
  "numerics \<Rightarrow> real list \<Rightarrow> real list \<Rightarrow> real \<Rightarrow> (real \<Rightarrow> real) \<times> real list \<times> int list" where
  "basement_indexes nl f_rhotl oB ohmSkey =
     (let (f_brl, beta) = dummy_basement_curve nl (poly1d f_rhotl) ohmSkey 45;
          xx = linspace (arr_min oB) (arr_max oB) n_samples;
          b45_projected = map f_brl xx;
          diff_arr = map2 (-) b45_projected (map (poly1d f_rhotl) xx);
          indexes = map int (filter (\<lambda>i. \<not> diff_arr ! i < 0 \<and> diff_arr ! i \<noteq> 0)
                               [0..<length diff_arr])
      in (f_brl, xx, indexes))"

definition integration_bounds :: "nat \<Rightarrow> int list \<Rightarrow> error + int list" where
  "integration_bounds frames indexes =
     (case find_bound_for_integration frames indexes [] of
        Inr ib_indexes \<Rightarrow> Inr ib_indexes
      | Inl failure \<Rightarrow> outcome (find_limit_for_integration indexes []))"

definition select_output ::
  "string \<Rightarrow> ohm_part \<Rightarrow> view_part \<Rightarrow> ohm_part option \<times> view_part option" where
  "select_output objective rv0 rv1 =
     (if objective = ''ohms'' then (Some rv0, None)
      else if objective = ''graph'' then (None, Some rv1)
      else (Some rv0, Some rv1))"

definition ohmic_numerics ::
  "nat \<Rightarrow> numerics \<Rightarrow> real list \<Rightarrow> real list \<Rightarrow> real \<Rightarrow> bool \<Rightarrow> string
     \<Rightarrow> error + ohm_part option \<times> view_part option" where
  "ohmic_numerics frames nl X Y ohmSkey sum_flag objective =
     (case fitfunc nl X Y None n_samples of
        Inl e \<Rightarrow> Inl e
      | Inr (f_rhotl, x_new, y_projected) \<Rightarrow>
          let oIx = argmin (map (\<lambda>x. \<bar>x - ohmSkey\<bar>) X);
              oB = drop oIx X;
              (f_brl, xx, indexes) = basement_indexes nl f_rhotl oB ohmSkey
          in case integration_bounds frames indexes of
               Inl e \<Rightarrow> Inl e
             | Inr ib_indexes \<Rightarrow>
                 let roots = map (\<lambda>i. xx ! nat i) ib_indexes
                 in case fitfunc nl oB (drop oIx Y) None n_samples of
                      Inl e \<Rightarrow> Inl e
                    | Inr (f45, xn45, yp45) \<Rightarrow>
                        let ff = (\<lambda>x. poly1d f45 x - poly1d f_rhotl x)
                        in case split_roots roots of
                             Inl e \<Rightarrow> Inl e
                           | Inr pairwise_r \<Rightarrow>
                               (case area_loop (quad nl ff) (enumerate 0 pairwise_r)
                                       (replicate (length pairwise_r) 0,
                                        replicate (length pairwise_r) 0) of
                                  Inl e \<Rightarrow> Inl e
                                | Inr (ohmS, err_ohmS) \<Rightarrow>
                                    Inr (select_output objective
                                          (if sum_flag then Summed (sum_list ohmS) else PerInterval ohmS,
                                           err_ohmS, roots)
                                          (zip X Y, zip x_new y_projected, zip oB (map f_brl oB)))))"

definition ohmicArea ::
  "nat \<Rightarrow> (nat \<Rightarrow> real list \<Rightarrow> nat) \<Rightarrow> (string \<Rightarrow> real option) \<Rightarrow> numerics
     \<Rightarrow> ndarray \<Rightarrow> ndarray \<Rightarrow> string option \<Rightarrow> keydepth \<Rightarrow> bool \<Rightarrow> string
     \<Rightarrow> error + ohm_part option \<times> view_part option" where
  "ohmicArea frames draw py_float nl AB rhoa typeofop ohmSkey sum_flag objective =
     (case normalise_objective objective of
        Inl e \<Rightarrow> Inl e
      | Inr objective \<Rightarrow>
          (case vesDataOperator draw AB rhoa typeofop of
             Inl e \<Rightarrow> Inl e
           | Inr (X, Y) \<Rightarrow>
               (case key_depth py_float ohmSkey (snd X) of
                  Inl e \<Rightarrow> Inl e
                | Inr ohmSkey \<Rightarrow>
                    if snd X = [] then Inl EmptyReduction
                    else if ohmSkey \<ge> arr_max (snd X) then Inl StartDepth
                    else ohmic_numerics frames nl (snd X) (snd Y) ohmSkey sum_flag objective)))"

text \<open>Two numeric libraries for the worked examples below. The least-squares solver of the
  second one returns the line \<open>10 x\<close>, which is the fit of data lying on that line.\<close>

definition example_numerics :: numerics where
  "example_numerics =
     \<lparr>np_sin = (\<lambda>x. 7071 / 10000), np_deg2rad = (\<lambda>d. d * 31416 / 1800000),
      lstsq = (\<lambda>x y deg. Some (replicate (Suc deg) 0)), quad = (\<lambda>f a b. (- 1, 1 / 2))\<rparr>"

definition line_numerics :: numerics where
  "line_numerics =
     \<lparr>np_sin = (\<lambda>x. 7071 / 10000), np_deg2rad = (\<lambda>d. d * 31416 / 1800000),
      lstsq = (\<lambda>x y deg. Some [10, 0]), quad = (\<lambda>f a b. (0, 0))\<rparr>"

section \<open>Properties of the bound finders\<close>

lemma arr_min_Min:
  assumes "xs \<noteq> []"
  shows "arr_min xs = Min (set xs)"
proof (cases xs)
  case Nil
  with assms show ?thesis by simp
next
  case (Cons a as)
  then show ?thesis
    unfolding arr_min_def using Min.set_eq_fold [of a as] by simp
qed

lemma arr_max_Max:
  assumes "xs \<noteq> []"
  shows "arr_max xs = Max (set xs)"
proof (cases xs)
  case Nil
  with assms show ?thesis by simp
next
  case (Cons a as)
  then show ?thesis
    unfolding arr_max_def using Max.set_eq_fold [of a as] by simp
qed

lemma arr_min_increasing: "sorted_wrt (<) (x # xs) \<Longrightarrow> arr_min (x # xs) = x"
  by (subst arr_min_Min) (auto intro!: Min_eqI simp: less_imp_le)

lemma wrap64_id: "- (2 ^ 63) \<le> i \<Longrightarrow> i < 2 ^ 63 \<Longrightarrow> wrap64 i = i"
  by (simp add: wrap64_def)

lemma wrap64_diff_left: "wrap64 (wrap64 a - b) = wrap64 (a - b)"
proof -
  have "((a + 2 ^ 63) mod 2 ^ 64 - b) mod 2 ^ 64 = (a + 2 ^ 63 - b) mod (2 ^ 64 :: int)"
    by (rule mod_diff_left_eq)
  then show ?thesis by (simp add: wrap64_def algebra_simps)
qed

lemma run_len_le: "run_len x xs \<le> length xs"
  by (induction xs arbitrary: x) auto

lemma run_prefix: "i \<le> run_len x xs \<Longrightarrow> (x # xs) ! i = x + int i"
proof (induction xs arbitrary: x i)
  case Nil
  then show ?case by simp
next
  case (Cons v vs)
  show ?case
  proof (cases i)
    case 0
    then show ?thesis by simp
  next
    case (Suc j)
    with Cons.prems have "v = x + 1" "j \<le> run_len v vs"
      by (auto split: if_splits)
    with Cons.IH [of j v] Suc show ?thesis by simp
  qed
qed

lemma increasing_nth_ge: "sorted_wrt (<) (x # xs) \<Longrightarrow> i \<le> length xs \<Longrightarrow> x + int i \<le> (x # xs) ! i"
proof (induction xs arbitrary: x i)
  case Nil
  then show ?case by simp
next
  case (Cons v vs)
  show ?case
  proof (cases i)
    case 0
    then show ?thesis by simp
  next
    case (Suc j)
    from Cons.prems have "x < v" "sorted_wrt (<) (v # vs)" "j \<le> length vs"
      using Suc by auto
    with Cons.IH [of v j] Suc show ?thesis by simp
  qed
qed

lemma run_suffix:
  "sorted_wrt (<) (x # xs) \<Longrightarrow> run_len x xs < i \<Longrightarrow> i \<le> length xs \<Longrightarrow> x + int i < (x # xs) ! i"
proof (induction xs arbitrary: x i)
  case Nil
  then show ?case by simp
next
  case (Cons v vs)
  from Cons.prems obtain j where i: "i = Suc j" by (cases i) auto
  from Cons.prems have sv: "sorted_wrt (<) (v # vs)" and xv: "x < v" and j: "j \<le> length vs"
    using i by auto
  show ?case
  proof (cases "v = x + 1")
    case True
    with Cons.prems i have "run_len v vs < j" by simp
    from Cons.IH [OF sv this j] True i show ?thesis by simp
  next
    case False
    with xv have "x + 1 < v" by simp
    moreover from increasing_nth_ge [OF sv j] have "v + int j \<le> (v # vs) ! j" .
    ultimately show ?thesis using i by simp
  qed
qed

lemma filter_upt_prefix:
  assumes "k \<le> n" "\<And>i. i < k \<Longrightarrow> P i" "\<And>i. k \<le> i \<Longrightarrow> i < n \<Longrightarrow> \<not> P i"
  shows "filter P [0..<n] = [0..<k]"
proof -
  have "[0..<n] = [0..<k] @ [k..<n]"
    using assms(1) by (metis le_add_diff_inverse upt_add_eq_append zero_le)
  moreover have "filter P [0..<k] = [0..<k]" using assms(2) by (simp add: filter_id_conv)
  moreover have "filter P [k..<n] = []" using assms(3) by (simp add: filter_empty_conv)
  ultimately show ?thesis by simp
qed

lemma index_increasing:
  assumes "sorted_wrt (<) (x # xs)"
  shows "filter (\<lambda>i. map2 (-) (x # xs) (map (\<lambda>i. x + int i) [0..<Suc (length xs)]) ! i = 0) [0..<Suc (length xs)]
         = [0..<Suc (run_len x xs)]"
proof (rule filter_upt_prefix)
  show "Suc (run_len x xs) \<le> Suc (length xs)" by (simp add: run_len_le)
next
  fix i assume "i < Suc (run_len x xs)"
  then have i: "i \<le> run_len x xs" by simp
  then have "i < Suc (length xs)" using run_len_le [of x xs] by simp
  then have "map2 (-) (x # xs) (map (\<lambda>i. x + int i) [0..<Suc (length xs)]) ! i = (x # xs) ! i - (x + int i)"
    by (simp del: upt_Suc)
  with run_prefix [OF i] show "map2 (-) (x # xs) (map (\<lambda>i. x + int i) [0..<Suc (length xs)]) ! i = 0"
    by simp
next
  fix i assume a: "Suc (run_len x xs) \<le> i" "i < Suc (length xs)"
  then have "map2 (-) (x # xs) (map (\<lambda>i. x + int i) [0..<Suc (length xs)]) ! i = (x # xs) ! i - (x + int i)"
    by (simp del: upt_Suc)
  moreover from a run_suffix [OF assms, of i] have "x + int i < (x # xs) ! i" by simp
  ultimately show "map2 (-) (x # xs) (map (\<lambda>i. x + int i) [0..<Suc (length xs)]) ! i \<noteq> 0"
    by simp
qed

lemma arr_min_upt: "arr_min (map (\<lambda>i. x + int i) [0..<Suc k]) = x"
  by (subst arr_min_Min) (auto intro!: Min_eqI simp del: upt_Suc)

lemma arr_max_upt: "arr_max (map (\<lambda>i. x + int i) [0..<Suc k]) = x + int k"
  by (subst arr_max_Max) (auto intro!: Max_eqI simp del: upt_Suc)

lemma arr_max_upt_nat: "arr_max [0..<Suc k] = k"
  by (subst arr_max_Max) (auto intro!: Max_eqI simp del: upt_Suc)

lemma sel_prefix:
  "map (\<lambda>i. (x # xs) ! i) [0..<Suc (run_len x xs)] = map (\<lambda>i. x + int i) [0..<Suc (run_len x xs)]"
  by (rule map_cong) (auto simp: run_prefix simp del: upt_Suc)

lemma int64_index_elem:
  "int64_index ix \<Longrightarrow> i < length ix \<Longrightarrow> 0 \<le> ix ! i \<and> ix ! i < 2 ^ 63"
  by (simp add: int64_index_def list_all_length)

lemma int64_index_drop: "int64_index ix \<Longrightarrow> int64_index (drop k ix)"
  by (auto simp: int64_index_def list_all_iff dest: in_set_dropD)

lemma psdiff_increasing:
  assumes "sorted_wrt (<) (x # xs)" and "int64_index (x # xs)"
  shows "np_arange x (wrap64 (int (length (x # xs)) + x)) = map (\<lambda>i. x + int i) [0..<Suc (length xs)]"
proof -
  have len: "int (Suc (length xs)) < 2 ^ 63" using assms(2) by (simp add: int64_index_def)
  have "wrap64 (wrap64 (int (length (x # xs)) + x) - x) = wrap64 (int (Suc (length xs)))"
    by (simp add: wrap64_diff_left)
  also have "\<dots> = int (Suc (length xs))" using len by (intro wrap64_id) simp_all
  finally have n: "nat (wrap64 (wrap64 (int (length (x # xs)) + x) - x)) = Suc (length xs)"
    by simp
  have "map (\<lambda>i. wrap64 (x + int i)) [0..<Suc (length xs)] = map (\<lambda>i. x + int i) [0..<Suc (length xs)]"
  proof (rule map_cong [OF refl])
    fix i assume "i \<in> set [0..<Suc (length xs)]"
    then have i: "i \<le> length xs" by auto
    from increasing_nth_ge [OF assms(1) i] int64_index_elem [OF assms(2), of i] i
    have "x + int i < 2 ^ 63" by simp
    moreover from int64_index_elem [OF assms(2), of 0] have "0 \<le> x" by simp
    ultimately show "wrap64 (x + int i) = x + int i" by (intro wrap64_id) simp_all
  qed
  then show ?thesis unfolding np_arange_def n .
qed

lemma diff_increasing:
  assumes "sorted_wrt (<) (x # xs)" and "int64_index (x # xs)"
  shows "np_subtract (x # xs) (map (\<lambda>i. x + int i) [0..<Suc (length xs)])
         = Inr (map2 (-) (x # xs) (map (\<lambda>i. x + int i) [0..<Suc (length xs)]))"
proof -
  have "map2 (\<lambda>a b. wrap64 (a - b)) (x # xs) (map (\<lambda>i. x + int i) [0..<Suc (length xs)])
        = map2 (-) (x # xs) (map (\<lambda>i. x + int i) [0..<Suc (length xs)])"
  proof (rule map_cong [OF refl])
    fix p assume "p \<in> set (zip (x # xs) (map (\<lambda>i. x + int i) [0..<Suc (length xs)]))"
    then have "\<exists>n. (x # xs) ! n = fst p \<and> map (\<lambda>i. x + int i) [0..<Suc (length xs)] ! n = snd p
        \<and> n < length (x # xs) \<and> n < length (map (\<lambda>i. x + int i) [0..<Suc (length xs)])"
      by (simp only: in_set_zip)
    then obtain i where il: "i < length (x # xs)" and pa: "fst p = (x # xs) ! i"
      and pb: "snd p = map (\<lambda>i. x + int i) [0..<Suc (length xs)] ! i"
      by metis
    from il have i: "i \<le> length xs" by simp
    obtain a b where p: "p = (a, b)" by (cases p)
    from pa p have a: "a = (x # xs) ! i" by simp
    from pb p i have bi: "b = x + int i" by (simp del: upt_Suc)
    from int64_index_elem [OF assms(2), of i] i a have ar: "0 \<le> a" "a < 2 ^ 63" by simp_all
    from increasing_nth_ge [OF assms(1) i] int64_index_elem [OF assms(2), of i] i
    have "x + int i < 2 ^ 63" by simp
    moreover from int64_index_elem [OF assms(2), of 0] have "0 \<le> x" by simp
    ultimately have br: "0 \<le> b" "b < 2 ^ 63" using bi by simp_all
    have "wrap64 (a - b) = a - b" using ar br by (intro wrap64_id) simp_all
    then show "(case p of (a, b) \<Rightarrow> wrap64 (a - b)) = (case p of (a, b) \<Rightarrow> a - b)"
      by (simp add: p)
  qed
  then show ?thesis by (simp add: np_subtract_def del: upt_Suc)
qed

lemma find_bound_unfold:
  assumes "sorted_wrt (<) (x # xs)" and "int64_index (x # xs)"
  shows "find_bound_for_integration (Suc frames) (x # xs) b0 =
     (let r = run_len x xs; b1 = b0 @ [x, x + int r] in
      if drop r xs = [] then Inr b1 else find_bound_for_integration frames (drop r xs) b1)"
proof -
  have m: "arr_min (x # xs) = x" by (rule arr_min_increasing [OF assms(1)])
  note ps = psdiff_increasing [OF assms]
  note df = diff_increasing [OF assms]
  have idx: "filter (\<lambda>i. map2 (-) (x # xs) (map (\<lambda>i. x + int i) [0..<Suc (length xs)]) ! i = 0)
       [0..<length (map2 (-) (x # xs) (map (\<lambda>i. x + int i) [0..<Suc (length xs)]))]
     = [0..<Suc (run_len x xs)]"
    using index_increasing [OF assms(1)] by (simp del: upt_Suc)
  have ne: "[0..<Suc (run_len x xs)] \<noteq> []" by simp
  have inr: "list_ex (\<lambda>i. length (x # xs) \<le> i) [0..<Suc (run_len x xs)] = False"
    using run_len_le [of x xs] by (auto simp: list_ex_iff simp del: upt_Suc)
  have sel: "map (\<lambda>i. (x # xs) ! i) [0..<Suc (run_len x xs)] = map (\<lambda>i. x + int i) [0..<Suc (run_len x xs)]"
    by (rule sel_prefix)
  have dr: "drop (arr_max [0..<Suc (run_len x xs)] + 1) (x # xs) = drop (run_len x xs) xs"
    by (simp add: arr_max_upt_nat del: upt_Suc)
  show ?thesis
    apply (subst find_bound_for_integration.simps)
    apply (simp only: Let_def m ps df sum.case idx inr ne sel dr arr_min_upt arr_max_upt list.simps if_False)
    done
qed

lemma py_nth_last: "xs \<noteq> [] \<Longrightarrow> py_nth xs (- 1) = last xs"
  by (simp add: py_nth_def last_conv_nth nat_diff_distrib')

lemma py_nth_pred: "0 < jj \<Longrightarrow> py_nth xs (int jj - 1) = xs ! (jj - 1)"
  by (simp add: py_nth_def nat_diff_distrib')

lemma limit_loop_loop2:
  "ix = pre @ vs \<Longrightarrow> pre \<noteq> [] \<Longrightarrow> jj = length pre \<Longrightarrow> s = last pre \<Longrightarrow>
   list_all (\<lambda>i. 0 \<le> i \<and> i < 2 ^ 63) ix \<Longrightarrow>
   limit_loop ix jj vs (s, oc, b) = loop2 vs (s, oc, b)"
proof (induction vs arbitrary: pre jj s oc b)
  case Nil
  then show ?case by simp
next
  case (Cons v vs)
  have jj: "0 < jj" using Cons.prems by simp
  have "py_nth ix (int jj - 1) = ix ! (jj - 1)" by (rule py_nth_pred [OF jj])
  then have look: "py_nth ix (int jj - 1) = s"
    using Cons.prems by (simp add: nth_append last_conv_nth)
  have "s \<in> set ix" "v \<in> set ix" using Cons.prems by auto
  with Cons.prems(5) have "0 \<le> s" "s < 2 ^ 63" "0 \<le> v" "v < 2 ^ 63"
    by (auto simp: list_all_iff)
  then have w: "wrap64 (v - s) = v - s" by (intro wrap64_id) simp_all
  have step: "\<And>oc' b'. limit_loop ix (Suc jj) vs (v, oc', b') = loop2 vs (v, oc', b')"
    by (rule Cons.IH [of "pre @ [v]"]) (use Cons.prems in simp_all)
  show ?case by (simp add: look step w)
qed

lemma loop2_fst: "fst (loop2 vs (s, oc, b)) = last (s # vs)"
  by (induction vs arbitrary: s oc b) auto

lemma find_limit_closed:
  assumes "sorted_wrt (<) (x # xs)" and "int64_index (x # xs)"
  shows "find_limit_for_integration (x # xs) b0 = Inr (fin (loop2 xs (x, x, b0)))"
proof -
  have m: "arr_min (x # xs) = x" by (rule arr_min_increasing [OF assms(1)])
  from int64_index_elem [OF assms(2), of 0] have x: "0 \<le> x" "x < 2 ^ 63" by simp_all
  then have w: "wrap64 (x - 1) = x - 1" by (intro wrap64_id) simp_all
  have w1: "wrap64 1 = 1" by (simp add: wrap64_def)
  have first: "limit_loop (x # xs) 0 (x # xs) (x - 1, x, b0) = limit_loop (x # xs) (Suc 0) xs (x, x, b0)"
    by (simp add: w1)
  have rest: "limit_loop (x # xs) (Suc 0) xs (x, x, b0) = loop2 xs (x, x, b0)"
    by (rule limit_loop_loop2 [of _ "[x]"]) (use assms(2) in \<open>simp_all add: int64_index_def\<close>)
  obtain s oc b1 where st: "loop2 xs (x, x, b0) = (s, oc, b1)"
    by (cases "loop2 xs (x, x, b0)") auto
  from loop2_fst [of xs x x b0] st have s: "s = last (x # xs)" by simp
  have "find_limit_for_integration (x # xs) b0 = Inr (b1 @ [oc, last (x # xs)])"
    using py_nth_last [of "x # xs"]
    by (simp add: find_limit_for_integration_def m w first rest st del: last.simps limit_loop.simps)
  then show ?thesis by (simp add: fin_def st s)
qed

lemma diff_eq_one: "(v - s = (1::int)) = (v = s + 1)"
  by auto

lemma loop2_run:
  "loop2 xs (s, oc, b) = loop2 (drop (run_len s xs) xs) (s + int (run_len s xs), oc, b)"
  by (induction xs arbitrary: s) (auto simp: diff_eq_one add.assoc)

lemma run_len_break:
  "run_len s xs < length xs \<Longrightarrow> xs ! run_len s xs \<noteq> s + int (run_len s xs) + 1"
proof (induction xs arbitrary: s)
  case Nil
  then show ?case by simp
next
  case (Cons v vs)
  show ?case
  proof (cases "v = s + 1")
    case True
    with Cons.prems have "run_len v vs < length vs" by simp
    from Cons.IH [OF this] True show ?thesis by simp
  next
    case False
    then show ?thesis by simp
  qed
qed

lemma n_breaks_run:
  "n_breaks x xs = (case drop (run_len x xs) xs of [] \<Rightarrow> 0 | v # vs \<Rightarrow> Suc (n_breaks v vs))"
  by (induction xs arbitrary: x) auto

text \<open>
  On an array of strictly increasing non-negative 64-bit indices the recursive finder
  needs one activation per run. When it is allowed that many, it returns the bounds that
  the loop of the iterative finder collects; when it is allowed fewer, it raises
  \<^verbatim>\<open>RecursionError\<close>.
\<close>

lemma find_bound_enough:
  "sorted_wrt (<) (x # xs) \<Longrightarrow> int64_index (x # xs) \<Longrightarrow> n_breaks x xs < frames \<Longrightarrow>
   find_bound_for_integration frames (x # xs) b0 = Inr (fin (loop2 xs (x, x, b0)))"
proof (induction frames arbitrary: x xs b0)
  case 0
  then show ?case by simp
next
  case (Suc frames)
  let ?r = "run_len x xs"
  note unfold = find_bound_unfold [OF Suc.prems(1,2), of frames b0]
  show ?case
  proof (cases "drop ?r xs")
    case Nil
    then have "loop2 xs (x, x, b0) = (x + int ?r, x, b0)"
      using loop2_run [of xs x x b0] by simp
    with Nil show ?thesis
      by (simp add: unfold fin_def)
  next
    case (Cons v vs)
    then have lt: "?r < length xs" by (cases "?r < length xs") auto
    from Cons have v: "v = xs ! ?r"
      by (metis lt hd_drop_conv_nth list.sel(1))
    with run_len_break [OF lt] have brk: "v - (x + int ?r) \<noteq> 1" by simp
    have "sorted_wrt (<) (drop ?r xs)"
      using Suc.prems(1) by (simp add: sorted_wrt_drop)
    with Cons have srt: "sorted_wrt (<) (v # vs)" by simp
    have "int64_index (drop (Suc ?r) (x # xs))" by (rule int64_index_drop [OF Suc.prems(2)])
    with Cons have rng: "int64_index (v # vs)" by simp
    from n_breaks_run [of x xs] Cons Suc.prems(3) have nb: "n_breaks v vs < frames" by simp
    have "loop2 xs (x, x, b0) = loop2 vs (v, v, b0 @ [x, x + int ?r])"
      using loop2_run [of xs x x b0] Cons brk by simp
    moreover have "find_bound_for_integration frames (v # vs) (b0 @ [x, x + int ?r])
        = Inr (fin (loop2 vs (v, v, b0 @ [x, x + int ?r])))"
      by (rule Suc.IH [OF srt rng nb])
    ultimately show ?thesis
      using Cons lt by (simp add: unfold Let_def)
  qed
qed

lemma find_bound_short:
  "sorted_wrt (<) (x # xs) \<Longrightarrow> int64_index (x # xs) \<Longrightarrow> frames \<le> n_breaks x xs \<Longrightarrow>
   \<exists>b. find_bound_for_integration frames (x # xs) b0 = Inl (RecursionLimit, b)"
proof (induction frames arbitrary: x xs b0)
  case 0
  then show ?case by (simp add: find_bound_for_integration.simps)
next
  case (Suc frames)
  let ?r = "run_len x xs"
  note unfold = find_bound_unfold [OF Suc.prems(1,2), of frames b0]
  from n_breaks_run [of x xs] Suc.prems(3) obtain v vs where
    Cons: "drop ?r xs = v # vs" and nb: "frames \<le> n_breaks v vs"
    by (cases "drop ?r xs") auto
  have "sorted_wrt (<) (drop ?r xs)"
    using Suc.prems(1) by (simp add: sorted_wrt_drop)
  with Cons have srt: "sorted_wrt (<) (v # vs)" by simp
  have "int64_index (drop (Suc ?r) (x # xs))" by (rule int64_index_drop [OF Suc.prems(2)])
  with Cons have rng: "int64_index (v # vs)" by simp
  from Cons have lt: "?r < length xs" by (cases "?r < length xs") auto
  from Suc.IH [OF srt rng nb, of "b0 @ [x, x + int ?r]"] Cons lt show ?case
    by (simp add: unfold Let_def)
qed

lemma loop2_length:
  "length (fin (loop2 xs (s, oc, b))) = length b + 2 * Suc (n_breaks s xs)"
  by (induction xs arbitrary: s oc b) (auto simp: fin_def diff_eq_one)

text \<open>
  Within the recursion budget the two finders agree: on a non-empty array of strictly
  increasing non-negative 64-bit indices with at most \<open>frames\<close> runs, both return the
  same bound list, two bounds per run.
\<close>

lemma finders_agree_within_limit:
  assumes "ix_arr \<noteq> []" and "sorted_wrt (<) ix_arr" and "int64_index ix_arr"
    and "n_runs ix_arr \<le> frames"
  shows "find_bound_for_integration frames ix_arr [] = find_limit_for_integration ix_arr []"
    and "\<exists>bounds. find_limit_for_integration ix_arr [] = Inr bounds \<and> length bounds = 2 * n_runs ix_arr"
proof -
  from assms(1) obtain x xs where ix: "ix_arr = x # xs" by (cases ix_arr) auto
  from assms(2,3) ix have s: "sorted_wrt (<) (x # xs)" and r: "int64_index (x # xs)" by simp_all
  from assms(4) ix have "n_breaks x xs < frames" by (simp add: n_runs_def)
  from find_bound_enough [OF s r this] find_limit_closed [OF s r] ix
  show "find_bound_for_integration frames ix_arr [] = find_limit_for_integration ix_arr []"
    by simp
  from find_limit_closed [OF s r, of "[]"] loop2_length [of xs x x "[]"] ix
  show "\<exists>bounds. find_limit_for_integration ix_arr [] = Inr bounds \<and> length bounds = 2 * n_runs ix_arr"
    by (simp add: n_runs_def)
qed

lemma evens_breaks:
  "k < n \<Longrightarrow> n_breaks (2 * int k) (map (\<lambda>i. 2 * int i) [Suc k..<n]) = n - Suc k"
proof (induction "n - Suc k" arbitrary: k)
  case 0
  then have "n = Suc k" by simp
  then show ?case by simp
next
  case (Suc m)
  then have lt: "Suc k < n" by simp
  then have "[Suc k..<n] = Suc k # [Suc (Suc k)..<n]" by (simp add: upt_conv_Cons)
  moreover have "n_breaks (2 * int (Suc k)) (map (\<lambda>i. 2 * int i) [Suc (Suc k)..<n]) = n - Suc (Suc k)"
    using Suc.hyps(1) [of "Suc k"] Suc.hyps(2) lt by simp
  ultimately show ?case using lt by simp
qed

lemma evens_well_formed:
  assumes "0 < n" and "int n < 2 ^ 62"
  shows "map (\<lambda>i. 2 * int i) [0..<n] = 0 # map (\<lambda>i. 2 * int i) [Suc 0..<n]"
    and "sorted_wrt (<) (0 # map (\<lambda>i. 2 * int i) [Suc 0..<n])"
    and "int64_index (0 # map (\<lambda>i. 2 * int i) [Suc 0..<n])"
    and "n_breaks 0 (map (\<lambda>i. 2 * int i) [Suc 0..<n]) = n - 1"
proof -
  show eq: "map (\<lambda>i. 2 * int i) [0..<n] = 0 # map (\<lambda>i. 2 * int i) [Suc 0..<n]"
    using assms(1) by (simp add: upt_conv_Cons)
  have "sorted_wrt (<) (map (\<lambda>i. 2 * int i) [0..<n])"
    by (simp add: sorted_wrt_map sorted_wrt_iff_nth_less)
  then show "sorted_wrt (<) (0 # map (\<lambda>i. 2 * int i) [Suc 0..<n])" by (simp only: eq)
  have "int64_index (map (\<lambda>i. 2 * int i) [0..<n])"
    using assms(2) by (auto simp: int64_index_def list_all_iff)
  then show "int64_index (0 # map (\<lambda>i. 2 * int i) [Suc 0..<n])" by (simp only: eq)
  from evens_breaks [OF assms(1)] show "n_breaks 0 (map (\<lambda>i. 2 * int i) [Suc 0..<n]) = n - 1"
    by simp
qed

lemma evens_recursion:
  assumes "frames < n" and "int n < 2 ^ 62"
  shows "outcome (find_bound_for_integration frames (map (\<lambda>i. 2 * int i) [0..<n]) []) = Inl RecursionLimit"
    and "\<exists>bounds. find_limit_for_integration (map (\<lambda>i. 2 * int i) [0..<n]) [] = Inr bounds
            \<and> length bounds = 2 * n"
proof -
  from assms(1) have n: "0 < n" by simp
  note wf = evens_well_formed [OF n assms(2)]
  from assms(1) wf(4) have "frames \<le> n_breaks 0 (map (\<lambda>i. 2 * int i) [Suc 0..<n])" by simp
  from find_bound_short [OF wf(2,3) this, of "[]"]
  show "outcome (find_bound_for_integration frames (map (\<lambda>i. 2 * int i) [0..<n]) []) = Inl RecursionLimit"
    by (auto simp: wf(1) outcome_def)
  from find_limit_closed [OF wf(2,3), of "[]"] loop2_length [of "map (\<lambda>i. 2 * int i) [Suc 0..<n]" 0 0 "[]"] wf(4) n
  show "\<exists>bounds. find_limit_for_integration (map (\<lambda>i. 2 * int i) [0..<n]) [] = Inr bounds
            \<and> length bounds = 2 * n"
    by (simp add: wf(1))
qed

text \<open>
  C5. The recursive and the iterative finder do not agree on every well-formed input. The
  1200 even indices \<open>0, 2, \<dots>, 2398\<close> (\<^verbatim>\<open>np.arange(0, 2400, 2)\<close>: non-empty, strictly
  increasing, non-negative) are 1200 runs of one index. The recursive finder, allowed at
  most the 1000 nested activations of the interpreter's default recursion limit, raises
  \<^verbatim>\<open>RecursionError\<close> on them, while the iterative finder returns its 2400 bounds.
\<close>

theorem finders_differ_beyond_recursion_limit:
  "outcome (find_bound_for_integration (min frames 1000) (map (\<lambda>i. 2 * int i) [0..<1200]) [])
     = Inl RecursionLimit
   \<and> exception_class RecursionLimit = RecursionError
   \<and> (\<exists>bounds. find_limit_for_integration (map (\<lambda>i. 2 * int i) [0..<1200]) [] = Inr bounds
          \<and> length bounds = 2400)"
proof -
  have a: "min frames 1000 < (1200 :: nat)" and b: "int 1200 < 2 ^ 62" by simp_all
  from evens_recursion(1) [OF a b] evens_recursion(2) [OF a b] show ?thesis
    by (simp del: upt_rec_numeral)
qed

text \<open>
  C3. On the empty index array neither finder returns the empty bound list: the first
  statement of both is \<^verbatim>\<open>ix_arr.min()\<close>, which raises \<^verbatim>\<open>ValueError\<close> on a zero-size
  array, before the accumulator is touched. \<open>ohmicArea\<close> reaches the finders with an
  empty array when the basement line is nowhere above the fitted curve, the case its
  documentation gives the area zero; the \<^verbatim>\<open>try\<close>/\<^verbatim>\<open>except\<close> around the finders runs the
  second one after the first has failed, and the error of the second is not caught.
\<close>

theorem finders_raise_on_empty:
  "find_bound_for_integration (Suc frames) [] b0 = Inl (EmptyReduction, b0)
   \<and> find_limit_for_integration [] b0 = Inl (EmptyReduction, b0)
   \<and> exception_class EmptyReduction = ValueError
   \<and> integration_bounds frames' [] = Inl EmptyReduction"
  by (cases frames')
    (simp_all add: find_bound_for_integration.simps find_limit_for_integration_def
      integration_bounds_def outcome_def)

text \<open>
  C4. Two successive calls with the single argument \<open>[3, 4, 5]\<close>, the accumulator left at
  its default, do not return the same list: the default list keeps the bounds of the
  first call, so the second call returns \<open>[3, 5, 3, 5]\<close>. The same holds for both
  finders (the recursive one needs a single activation here).
\<close>

theorem default_accumulator_persists:
  "(let (r1, st1) = call_find_bound (Suc frames) [3, 4, 5] module_loaded;
        (r2, st2) = call_find_bound (Suc frames) [3, 4, 5] st1
    in (r1, r2)) = (Inr [3, 5], Inr [3, 5, 3, 5])
   \<and> (let (r1, st1) = call_find_limit [3, 4, 5] module_loaded;
            (r2, st2) = call_find_limit [3, 4, 5] st1
        in (r1, r2)) = (Inr [3, 5], Inr [3, 5, 3, 5])"
  by code_simp

section \<open>Properties of the rounding\<close>

text \<open>
  \<open>exponent\<close> stays between \<open>- 1022\<close> and \<open>1023\<close> and is the binary exponent of a positive
  number in the range of the normal doubles. A finite result of \<open>fl\<close> is a double (an
  integer significand of at most 53 bits times a power of two, below \<open>2 ^ 1024\<close> in
  magnitude) that differs from the rounded number by at most half a unit in the last
  place, and a number that is such a multiple is rounded to itself. A number of at least
  \<open>2 ^ 1024\<close> is rounded to the infinity.
\<close>

lemma pow2_pos: "0 < pow2 e"
  by (simp add: pow2_def)

lemma pow2_powr: "pow2 e = 2 powr (of_int e)"
  by (simp add: pow2_def powr_int)

lemma pow2_add: "pow2 (a + b) = pow2 a * pow2 b"
  by (simp add: pow2_powr powr_add)

lemma pow2_mono: "a \<le> b \<Longrightarrow> pow2 a \<le> pow2 b"
  unfolding pow2_powr by simp

lemma pow2_strict_mono: "a < b \<Longrightarrow> pow2 a < pow2 b"
  unfolding pow2_powr by simp

lemma pow2_53: "pow2 (e + 1) = 2 ^ 53 * pow2 (e - 52)"
proof -
  have "pow2 (e + 1) = pow2 (53 + (e - 52))" by (rule arg_cong [where f = pow2]) simp
  also have "\<dots> = pow2 53 * pow2 (e - 52)" by (rule pow2_add)
  also have "pow2 53 = 2 ^ 53" by (simp add: pow2_def)
  finally show ?thesis .
qed

lemma expo_up_spec:
  "pow2 e \<le> a \<Longrightarrow> e \<le> 1023 \<Longrightarrow>
     pow2 (expo_up a e) \<le> a \<and> (expo_up a e < 1023 \<longrightarrow> a < pow2 (expo_up a e + 1))
     \<and> e \<le> expo_up a e \<and> expo_up a e \<le> 1023"
proof (induction a e rule: expo_up.induct)
  case (1 a e)
  show ?case
  proof (cases "e < 1023 \<and> pow2 (e + 1) \<le> a")
    case True
    then have "expo_up a e = expo_up a (e + 1)" using expo_up.simps [of a e] by simp
    with 1 True show ?thesis by auto
  next
    case False
    then have "expo_up a e = e" using expo_up.simps [of a e] by auto
    with 1 False show ?thesis by auto
  qed
qed

lemma expo_down_spec:
  "a < pow2 (e + 1) \<Longrightarrow> - 1022 \<le> e \<Longrightarrow>
     a < pow2 (expo_down a e + 1) \<and> (- 1022 < expo_down a e \<longrightarrow> pow2 (expo_down a e) \<le> a)
     \<and> - 1022 \<le> expo_down a e \<and> expo_down a e \<le> e"
proof (induction a e rule: expo_down.induct)
  case (1 a e)
  show ?case
  proof (cases "- 1022 < e \<and> a < pow2 e")
    case True
    then have "expo_down a e = expo_down a (e - 1)" using expo_down.simps [of a e] by simp
    with 1 True show ?thesis by auto
  next
    case False
    then have "expo_down a e = e" using expo_down.simps [of a e] by auto
    with 1 False show ?thesis by auto
  qed
qed

lemma exponent_spec:
  "- 1022 \<le> exponent a \<and> exponent a \<le> 1023
   \<and> (pow2 (- 1022) \<le> a \<longrightarrow> pow2 (exponent a) \<le> a)
   \<and> (exponent a < 1023 \<longrightarrow> a < pow2 (exponent a + 1))"
proof (cases "1 \<le> a")
  case True
  then have "pow2 0 \<le> a" by (simp add: pow2_def)
  from expo_up_spec [OF this] True show ?thesis by (simp add: exponent_def)
next
  case False
  then have "a < pow2 (0 + 1)" by (simp add: pow2_def)
  from expo_down_spec [OF this] have s: "a < pow2 (expo_down a 0 + 1)"
    "- 1022 < expo_down a 0 \<longrightarrow> pow2 (expo_down a 0) \<le> a" "- 1022 \<le> expo_down a 0"
    "expo_down a 0 \<le> 0" by simp_all
  have "pow2 (- 1022) \<le> a \<longrightarrow> pow2 (expo_down a 0) \<le> a"
  proof (cases "- 1022 < expo_down a 0")
    case True
    with s show ?thesis by simp
  next
    case F: False
    with s have "expo_down a 0 = - 1022" by simp
    then show ?thesis by simp
  qed
  with s False show ?thesis by (simp add: exponent_def)
qed

lemma round_half_even_near: "\<bar>of_int (round_half_even y) - y\<bar> \<le> 1 / 2"
  unfolding round_half_even_def Let_def by (auto simp: abs_if) (linarith+)?

lemma round_half_even_int: "round_half_even (of_int m) = m"
  by (simp add: round_half_even_def)

lemma round_half_even_mono: "y \<le> of_int n \<Longrightarrow> round_half_even y \<le> n"
  unfolding round_half_even_def Let_def
  by (auto simp: floor_le_iff) (linarith+)?

lemma round_half_even_mono': "of_int n \<le> y \<Longrightarrow> n \<le> round_half_even y"
  unfolding round_half_even_def Let_def
  by (auto simp: le_floor_iff) (linarith+)?

lemma fl_near:
  assumes "fl x = Finite r"
  shows "\<bar>r - x\<bar> \<le> pow2 (exponent \<bar>x\<bar> - 52) / 2"
proof -
  let ?u = "pow2 (exponent \<bar>x\<bar> - 52)"
  let ?m = "round_half_even (x / ?u)"
  have u: "0 < ?u" by (rule pow2_pos)
  from assms have r: "r = of_int ?m * ?u"
    by (simp add: fl_def Let_def split: if_splits)
  have "\<bar>of_int ?m - x / ?u\<bar> \<le> 1 / 2" by (rule round_half_even_near)
  then have "\<bar>of_int ?m - x / ?u\<bar> * ?u \<le> 1 / 2 * ?u"
    using u by (intro mult_right_mono) simp_all
  moreover have "\<bar>of_int ?m - x / ?u\<bar> * ?u = \<bar>(of_int ?m - x / ?u) * ?u\<bar>"
    using u by (simp add: abs_mult)
  moreover have "(of_int ?m - x / ?u) * ?u = of_int ?m * ?u - x"
    using u by (simp add: left_diff_distrib)
  ultimately show "\<bar>r - x\<bar> \<le> ?u / 2" by (simp add: r)
qed

lemma fl_double:
  assumes "fl x = Finite r"
  shows "\<exists>m e. r = of_int m * pow2 (e - 52) \<and> \<bar>m\<bar> \<le> 2 ^ 53 \<and> - 1022 \<le> e \<and> e \<le> 1023
           \<and> \<bar>r\<bar> < pow2 1024"
proof -
  let ?e = "exponent \<bar>x\<bar>"
  let ?u = "pow2 (?e - 52)"
  let ?m = "round_half_even (x / ?u)"
  have u: "0 < ?u" by (rule pow2_pos)
  note es = exponent_spec [of "\<bar>x\<bar>"]
  from assms have r: "r = of_int ?m * ?u"
    by (simp add: fl_def Let_def split: if_splits)
  have m: "\<bar>?m\<bar> \<le> 2 ^ 53 \<and> (?e = 1023 \<longrightarrow> \<bar>?m\<bar> < 2 ^ 53)"
  proof (cases "?e = 1023")
    case True
    with assms show ?thesis by (auto simp: fl_def Let_def split: if_splits)
  next
    case False
    with es have "\<bar>x\<bar> < pow2 (?e + 1)" by simp
    also have "pow2 (?e + 1) = 2 ^ 53 * ?u" by (rule pow2_53)
    finally have "\<bar>x\<bar> / ?u < 2 ^ 53" using u by (simp add: pos_divide_less_eq)
    then have "x / ?u \<le> of_int (2 ^ 53)" "of_int (- (2 ^ 53)) \<le> x / ?u"
      using u by (simp_all add: abs_if field_simps split: if_splits)
    from round_half_even_mono [OF this(1)] round_half_even_mono' [OF this(2)] False
    show ?thesis by auto
  qed
  have "\<bar>r\<bar> < pow2 1024"
  proof (cases "?e = 1023")
    case True
    with m have "\<bar>real_of_int ?m\<bar> < 2 ^ 53" by (metis of_int_abs of_int_less_iff of_int_numeral of_int_power)
    then have "\<bar>real_of_int ?m\<bar> * ?u < 2 ^ 53 * ?u" using u by simp
    also have "2 ^ 53 * ?u = pow2 1024" using True pow2_53 [of 1023] by simp
    finally show ?thesis using u by (simp add: r abs_mult)
  next
    case False
    with es have e: "?e + 1 \<le> 1023" by simp
    from m have "\<bar>real_of_int ?m\<bar> \<le> 2 ^ 53" by (metis of_int_abs of_int_le_iff of_int_numeral of_int_power)
    then have "\<bar>real_of_int ?m\<bar> * ?u \<le> 2 ^ 53 * ?u" using u by simp
    also have "2 ^ 53 * ?u = pow2 (?e + 1)" by (rule pow2_53 [symmetric])
    also have "\<dots> \<le> pow2 1023" using e by (rule pow2_mono)
    also have "\<dots> < pow2 1024" by (rule pow2_strict_mono) simp
    finally show ?thesis using u by (simp add: r abs_mult)
  qed
  with r m es show ?thesis by blast
qed

lemma fl_exact:
  assumes "x = of_int m * pow2 (exponent \<bar>x\<bar> - 52)" and "\<bar>m\<bar> < 2 ^ 53"
  shows "fl x = Finite x"
proof -
  let ?u = "pow2 (exponent \<bar>x\<bar> - 52)"
  have u: "0 < ?u" by (rule pow2_pos)
  have "x / ?u = of_int m" using assms(1) u by (metis nonzero_mult_div_cancel_right less_irrefl)
  then have "round_half_even (x / ?u) = m" by (simp add: round_half_even_int)
  moreover from assms(2) have "m < 2 ^ 53" "- (2 ^ 53) < m" by simp_all
  ultimately show ?thesis using assms(1) by (auto simp: fl_def Let_def)
qed

lemma exponent_top: "pow2 1023 \<le> a \<Longrightarrow> exponent a = 1023"
proof -
  assume a: "pow2 1023 \<le> a"
  from exponent_spec [of a] have r: "exponent a \<le> 1023"
    and u: "exponent a < 1023 \<longrightarrow> a < pow2 (exponent a + 1)" by simp_all
  show ?thesis
  proof (rule ccontr)
    assume "exponent a \<noteq> 1023"
    with r have lt: "exponent a < 1023" by simp
    with u have "a < pow2 (exponent a + 1)" by simp
    also have "\<dots> \<le> pow2 1023" using lt by (intro pow2_mono) simp
    finally show False using a by simp
  qed
qed

lemma fl_overflow: "pow2 1024 \<le> x \<Longrightarrow> fl x = PosInf"
proof -
  assume x: "pow2 1024 \<le> x"
  have "pow2 1023 \<le> pow2 1024" by (intro pow2_mono) simp
  with x have "pow2 1023 \<le> \<bar>x\<bar>" by simp
  then have e: "exponent \<bar>x\<bar> = 1023" by (rule exponent_top)
  have u: "0 < pow2 971" by (rule pow2_pos)
  have "pow2 1024 = 2 ^ 53 * pow2 971" using pow2_53 [of 1023] by simp
  with x have "2 ^ 53 * pow2 971 \<le> x" by simp
  then have "of_int (2 ^ 53) \<le> x / pow2 971" using u by (simp add: pos_le_divide_eq)
  from round_half_even_mono' [OF this] e show ?thesis
    by (simp add: fl_def Let_def)
qed

section \<open>Properties of the shape classifier\<close>

text \<open>
  C9. \<open>shape\<close> is not invariant under scaling. Every element of the zone
  \<open>[1, 1/2, 1 + 1 / 2 ^ 52, 2]\<close> is a double. The sum of its two middle values,
  \<open>2 + 1 / 2 ^ 52\<close>, lies half-way between two doubles and is rounded to \<open>2\<close>, so the
  median is \<open>1\<close>, the left end \<open>1\<close> is not below it, and the shape is \<open>U\<close>. Three times the
  zone is \<open>[3, 3/2, 3 + 1 / 2 ^ 50, 6]\<close>; here the sum of the middle values is a double,
  the median \<open>3 + 1 / 2 ^ 51\<close> lies above the left end \<open>3\<close>, and the shape is \<open>C\<close>.
\<close>

theorem shape_changes_under_scaling:
  "map fl [1, 1 / 2, 1 + 1 / 2 ^ 52, 2] = map Finite [1, 1 / 2, 1 + 1 / 2 ^ 52, 2]
   \<and> np_multiply 3 [1, 1 / 2, 1 + 1 / 2 ^ 52, 2] = map Finite [3, 3 / 2, 3 + 1 / 2 ^ 50, 6]
   \<and> median [1, 1 / 2, 1 + 1 / 2 ^ 52, 2] = Finite 1
   \<and> median [3, 3 / 2, 3 + 1 / 2 ^ 50, 6] = Finite (3 + 1 / 2 ^ 51)
   \<and> shape [1, 1 / 2, 1 + 1 / 2 ^ 52, 2] Unset = Inr ''U''
   \<and> shape [3, 3 / 2, 3 + 1 / 2 ^ 50, 6] Unset = Inr ''C''"
proof -
  have "map fl [1, 1 / 2, 1 + 1 / 2 ^ 52, 2] = map Finite [1, 1 / 2, 1 + 1 / 2 ^ 52, 2]"
    by code_simp
  moreover have "np_multiply 3 [1, 1 / 2, 1 + 1 / 2 ^ 52, 2] = map Finite [3, 3 / 2, 3 + 1 / 2 ^ 50, 6]"
    by code_simp
  moreover have "median [1, 1 / 2, 1 + 1 / 2 ^ 52, 2] = Finite 1"
    by code_simp
  moreover have "median [3, 3 / 2, 3 + 1 / 2 ^ 50, 6] = Finite (3 + 1 / 2 ^ 51)"
    by code_simp
  moreover have "shape [1, 1 / 2, 1 + 1 / 2 ^ 52, 2] Unset = Inr ''U''"
    by code_simp
  moreover have "shape [3, 3 / 2, 3 + 1 / 2 ^ 50, 6] Unset = Inr ''C''"
    by code_simp
  ultimately show ?thesis by blast
qed

text \<open>
  C2, as the code has it. On the zone \<open>[60,70,65,40,30,31,34,40,38,50,61,90]\<close> with no
  station given, the station is index 4, both ends (60 and 90) lie above the median 45,
  the left part has no local minimum and the right part exactly one (38), so \<open>shape\<close>
  returns \<open>H\<close>.
\<close>

theorem shape_documented_zone:
  "shape [60,70,65,40,30,31,34,40,38,50,61,90] Unset = Inr ''H''"
  by code_simp

text \<open>C2, as the specification states it (the result is \<open>U\<close>), fails.\<close>

theorem shape_documented_zone_counterexample:
  "shape [60,70,65,40,30,31,34,40,38,50,61,90] Unset \<noteq> Inr ''U''"
  by code_simp

text \<open>
  The result \<open>U\<close> documented for this zone is that of the deprecated \<open>get_shape\<close>.
\<close>

lemma get_shape_documented_zone:
  "get_shape [60,70,65,40,30,31,34,40,38,50,61,90] = Inr ''U''"
  by code_simp

section \<open>Properties of the duplicate reduction\<close>

lemma put_masked_length: "length (put_masked ys ms vs) = length ys"
  by (induction ys ms vs rule: put_masked.induct) auto

lemma put_masked_keep:
  "j < length ys \<Longrightarrow> j < length ms \<Longrightarrow> \<not> ms ! j \<Longrightarrow> put_masked ys ms vs ! j = ys ! j"
proof (induction ys ms vs arbitrary: j rule: put_masked.induct)
  case (1 y ys ms v vs)
  then show ?case by (cases j) auto
next
  case (2 y ys ms vs)
  then show ?case by (cases j) auto
qed auto

lemma first_index_less: "x \<in> set xs \<Longrightarrow> first_index xs x < length xs"
  unfolding first_index_def by (induction xs) auto

lemma first_index_nth: "x \<in> set xs \<Longrightarrow> xs ! first_index xs x = x"
  unfolding first_index_def by (induction xs) auto

lemma np_unique_fst: "fst (np_unique xs) = sort (remdups xs)"
  by (simp add: np_unique_def Let_def)

lemma np_unique_snd: "snd (np_unique xs) = map (first_index xs) (sort (remdups xs))"
  by (simp add: np_unique_def Let_def)



lemma ves_returns:
  assumes "vesDataOperator draw AB rhoa typeofop = Inr (X, Y)"
  shows "snd X = sort (remdups (snd AB))"
    and "length (snd Y) = length (snd X)"
    and "length (snd rhoa) = length (snd AB)"
    and "\<exists>vs. snd Y = put_masked (map (\<lambda>i. snd rhoa ! i) (map (first_index (snd AB)) (snd X)))
            (map (\<lambda>x. x \<in> set (duplicated_values (snd AB))) (snd X)) vs"
  using assms
  by (auto simp: vesDataOperator_def Let_def np_unique_def mask_assign_def put_masked_length
      simp del: set_map map_map split: if_splits sum.splits)

lemma duplicated_values_mem:
  assumes "d \<in> set (duplicated_values xs)"
  shows "\<exists>i < length xs. xs ! i = d \<and> first_index xs d \<noteq> i"
proof -
  from assms obtain i where i: "i < length xs" "xs ! i = d"
    and ni: "i \<notin> set (map (first_index xs) (sort (remdups xs)))"
    by (auto simp: duplicated_values_def Let_def np_unique_def)
  from i have "d \<in> set (sort (remdups xs))" by auto
  with ni have "first_index xs d \<noteq> i" by auto
  with i show ?thesis by blast
qed

lemma ves_passes_single:
  assumes ret: "vesDataOperator draw AB rhoa typeofop = Inr (X, Y)"
    and i: "i < length (snd AB)"
    and single: "\<forall>i' < length (snd AB). snd AB ! i' = snd AB ! i \<longrightarrow> i' = i"
    and j: "j < length (snd X)" "snd X ! j = snd AB ! i"
  shows "snd Y ! j = snd rhoa ! i"
proof -
  let ?x = "snd AB ! i"
  have mem: "?x \<in> set (snd AB)" using i by simp
  have fi: "first_index (snd AB) ?x = i"
    using single first_index_less [OF mem] first_index_nth [OF mem] by blast
  have nd: "?x \<notin> set (duplicated_values (snd AB))"
  proof
    assume "?x \<in> set (duplicated_values (snd AB))"
    from duplicated_values_mem [OF this] obtain i' where
      "i' < length (snd AB)" "snd AB ! i' = ?x" "first_index (snd AB) ?x \<noteq> i'" by blast
    with single fi show False by auto
  qed
  from ves_returns(4) [OF ret] obtain vs where
    Y: "snd Y = put_masked (map (\<lambda>i. snd rhoa ! i) (map (first_index (snd AB)) (snd X)))
            (map (\<lambda>x. x \<in> set (duplicated_values (snd AB))) (snd X)) vs" by blast
  have "snd Y ! j = map (\<lambda>i. snd rhoa ! i) (map (first_index (snd AB)) (snd X)) ! j"
    unfolding Y by (rule put_masked_keep) (use j nd in simp_all)
  then show ?thesis using j fi by simp
qed

text \<open>
  A mean that does not fit the 64-bit integer array made for the duplicated spacings:
  the store raises \<^verbatim>\<open>OverflowError\<close>.
\<close>

lemma ves_store_overflow:
  "vesDataOperator draw (Int64, [1, 1]) (Float64, [10 ^ 19, 10 ^ 19]) (Some ''mean'') = Inl CastOverflow"
  by code_simp

text \<open>
  C8. With mode \<open>mean\<close>, positions \<open>[0,10,10,20]\<close> and resistivities \<open>[100,90,110,80]\<close>
  give positions \<open>[0,10,20]\<close> and resistivities \<open>[100,100,80]\<close>. Whenever
  \<open>vesDataOperator\<close> returns, the output positions are the original positions sorted
  and without repetition, there is one resistivity per output position, and a position
  that occurs only once in the input keeps its resistivity.
\<close>

theorem ves_reduce:
  "vesDataOperator draw (Int64, [0, 10, 10, 20]) (Int64, [100, 90, 110, 80]) (Some ''mean'')
     = Inr ((Int64, [0, 10, 20]), (Int64, [100, 100, 80]))
   \<and> (vesDataOperator draw' AB rhoa typeofop = Inr (X, Y) \<longrightarrow>
        sorted (snd X) \<and> distinct (snd X) \<and> set (snd X) = set (snd AB)
        \<and> length (snd Y) = length (snd X)
        \<and> (\<forall>i j. i < length (snd AB)
                 \<and> (\<forall>i' < length (snd AB). snd AB ! i' = snd AB ! i \<longrightarrow> i' = i)
                 \<and> j < length (snd X) \<and> snd X ! j = snd AB ! i
               \<longrightarrow> snd Y ! j = snd rhoa ! i))"
proof (intro conjI impI)
  show "vesDataOperator draw (Int64, [0, 10, 10, 20]) (Int64, [100, 90, 110, 80]) (Some ''mean'')
     = Inr ((Int64, [0, 10, 20]), (Int64, [100, 100, 80]))"
    by code_simp
next
  assume ret: "vesDataOperator draw' AB rhoa typeofop = Inr (X, Y)"
  from ves_returns(1) [OF ret]
  show "sorted (snd X)" "distinct (snd X)" "set (snd X) = set (snd AB)" by simp_all
  from ves_returns(2) [OF ret] show "length (snd Y) = length (snd X)" .
  show "\<forall>i j. i < length (snd AB)
                 \<and> (\<forall>i' < length (snd AB). snd AB ! i' = snd AB ! i \<longrightarrow> i' = i)
                 \<and> j < length (snd X) \<and> snd X ! j = snd AB ! i
               \<longrightarrow> snd Y ! j = snd rhoa ! i"
    using ves_passes_single [OF ret] by blast
qed

theorem ves_reduce_witness:
  "vesDataOperator (\<lambda>ii sel. 0) (Float64, [0, 10, 10, 20]) (Float64, [100, 90, 111, 80]) None
      = Inr ((Float64, [0, 10, 20]), (Float64, [100, 201 / 2, 80]))
   \<and> sorted [0, 10, 20 :: real] \<and> distinct [0, 10, 20 :: real]
   \<and> [100, 201 / 2, 80 :: real] ! 2 = [100, 90, 111, 80] ! 3"
proof -
  have ret: "vesDataOperator (\<lambda>ii sel. 0) (Float64, [0, 10, 10, 20]) (Float64, [100, 90, 111, 80]) None
      = Inr ((Float64, [0, 10, 20]), (Float64, [100, 201 / 2, 80]))"
    by code_simp
  have single: "\<forall>i' < length (snd (Float64, [0, 10, 10, 20 :: real])).
      snd (Float64, [0, 10, 10, 20 :: real]) ! i' = snd (Float64, [0, 10, 10, 20 :: real]) ! 3 \<longrightarrow> i' = 3"
    by (auto simp: less_Suc_eq numeral_eq_Suc)
  from ves_reduce [of "\<lambda>ii sel. 0" "\<lambda>ii sel. 0" "(Float64, [0, 10, 10, 20])" "(Float64, [100, 90, 111, 80])"
      None "(Float64, [0, 10, 20])" "(Float64, [100, 201 / 2, 80])"] ret
  have gen: "sorted [0, 10, 20 :: real] \<and> distinct [0, 10, 20 :: real]
     \<and> (\<forall>i j. i < length (snd (Float64, [0, 10, 10, 20 :: real]))
                 \<and> (\<forall>i' < length (snd (Float64, [0, 10, 10, 20 :: real])).
                        snd (Float64, [0, 10, 10, 20 :: real]) ! i' = snd (Float64, [0, 10, 10, 20 :: real]) ! i \<longrightarrow> i' = i)
                 \<and> j < length (snd (Float64, [0, 10, 20 :: real])) \<and> snd (Float64, [0, 10, 20 :: real]) ! j = snd (Float64, [0, 10, 10, 20 :: real]) ! i
               \<longrightarrow> snd (Float64, [100, 201 / 2, 80 :: real]) ! j = snd (Float64, [100, 90, 111, 80 :: real]) ! i)"
    by (simp del: sorted_wrt.simps distinct.simps)
  then have "snd (Float64, [100, 201 / 2, 80 :: real]) ! 2 = snd (Float64, [100, 90, 111, 80 :: real]) ! 3"
    using single by (elim conjE allE [of _ 3] allE [of _ 2]) (simp del: sorted_wrt.simps)
  with ret gen show ?thesis by simp
qed


section \<open>Properties of the curve fit\<close>

lemma linspace_length: "length (linspace a b n) = n"
  by (simp add: linspace_def)

text \<open>
  C7, as the code has it. \<open>fitfunc\<close> makes no check of its own. It fails whenever the two
  arrays differ in length and whenever \<open>x\<close> is empty; with the degree left out the
  exception is the \<^verbatim>\<open>TypeError\<close> of \<^verbatim>\<open>np.polyfit\<close>. It fails with \<^verbatim>\<open>LinAlgError\<close> when the
  arrays have the same positive length, every abscissa is zero and the degree is left out
  or positive. On every other input whose degree is left out or non-negative, a single
  data point included, the least-squares solver of \<^verbatim>\<open>np.polyfit\<close> is run at the given
  degree, or at the number of local extrema of \<open>y\<close> plus one, and \<open>fitfunc\<close> returns
  exactly when the solver does: the solver's polynomial, \<open>sample\<close> evenly spaced abscissae
  from the least to the largest \<open>x\<close>, and the values of the polynomial there.
\<close>

theorem fitfunc_failures:
  "(length x \<noteq> length y \<longrightarrow> (\<exists>e. fitfunc nl x y deg sample = Inl e))
   \<and> (x = [] \<longrightarrow> (\<exists>e. fitfunc nl x y deg sample = Inl e))
   \<and> (deg = None \<and> (x = [] \<or> length x \<noteq> length y) \<longrightarrow>
        (\<exists>e. fitfunc nl x y deg sample = Inl e \<and> exception_class e = TypeError))
   \<and> (x \<noteq> [] \<and> length x = length y \<and> (\<forall>v \<in> set x. v = 0) \<and> (\<forall>d. deg = Some d \<longrightarrow> 0 < d) \<longrightarrow>
        fitfunc nl x y deg sample = Inl PolyfitLinAlg \<and> exception_class PolyfitLinAlg = LinAlgError)
   \<and> (x \<noteq> [] \<and> length x = length y \<and> (\<forall>d. deg = Some d \<longrightarrow> 0 \<le> d)
        \<and> ((\<exists>v \<in> set x. v \<noteq> 0) \<or> deg = Some 0) \<longrightarrow>
        fitfunc nl x y deg sample =
          (case lstsq nl x y
                  (case deg of
                     Some d \<Rightarrow> nat d
                   | None \<Rightarrow> length (argrelextrema y (<)) + length (argrelextrema y (>)) + 1) of
             None \<Rightarrow> Inl PolyfitLinAlg
           | Some f \<Rightarrow>
               Inr (f, linspace (arr_min x) (arr_max x) sample,
                    map (poly1d f) (linspace (arr_min x) (arr_max x) sample))))"
proof (intro conjI impI)
  show "\<exists>e. fitfunc nl x y deg sample = Inl e" if "length x \<noteq> length y"
    using that by (cases deg) (auto simp: fitfunc_def np_polyfit_def Let_def)
  show "\<exists>e. fitfunc nl x y deg sample = Inl e" if "x = []"
    using that by (cases deg) (auto simp: fitfunc_def np_polyfit_def Let_def)
  show "\<exists>e. fitfunc nl x y deg sample = Inl e \<and> exception_class e = TypeError"
    if "deg = None \<and> (x = [] \<or> length x \<noteq> length y)"
    using that by (auto simp: fitfunc_def np_polyfit_def Let_def)
  show "fitfunc nl x y deg sample = Inl PolyfitLinAlg"
    if "x \<noteq> [] \<and> length x = length y \<and> (\<forall>v \<in> set x. v = 0) \<and> (\<forall>d. deg = Some d \<longrightarrow> 0 < d)"
    using that by (cases deg) (auto simp: fitfunc_def np_polyfit_def Let_def list_all_iff)
  show "exception_class PolyfitLinAlg = LinAlgError" by simp
  show "fitfunc nl x y deg sample =
          (case lstsq nl x y
                  (case deg of
                     Some d \<Rightarrow> nat d
                   | None \<Rightarrow> length (argrelextrema y (<)) + length (argrelextrema y (>)) + 1) of
             None \<Rightarrow> Inl PolyfitLinAlg
           | Some f \<Rightarrow>
               Inr (f, linspace (arr_min x) (arr_max x) sample,
                    map (poly1d f) (linspace (arr_min x) (arr_max x) sample)))"
    if "x \<noteq> [] \<and> length x = length y \<and> (\<forall>d. deg = Some d \<longrightarrow> 0 \<le> d)
        \<and> ((\<exists>v \<in> set x. v \<noteq> 0) \<or> deg = Some 0)"
  proof (cases deg)
    case None
    with that have nz: "\<not> list_all (\<lambda>v. v = 0) x" by (auto simp: list_all_iff)
    have "nat (int (length (argrelextrema y (<)) + length (argrelextrema y (>))) + 1)
          = length (argrelextrema y (<)) + length (argrelextrema y (>)) + 1"
      by simp
    with that None nz show ?thesis
      by (simp add: fitfunc_def np_polyfit_def Let_def split: option.splits)
  next
    case (Some d)
    with that have "0 \<le> d" "\<not> (0 < d \<and> list_all (\<lambda>v. v = 0) x)"
      by (auto simp: list_all_iff)
    with that Some show ?thesis
      by (simp add: fitfunc_def np_polyfit_def Let_def split: option.splits)
  qed
qed

theorem fitfunc_failures_witness:
  "(\<exists>e. fitfunc example_numerics [1, 2] [1] None 1000 = Inl e \<and> exception_class e = TypeError)
   \<and> (\<exists>e. fitfunc example_numerics [] [] (Some 1) 1000 = Inl e)
   \<and> fitfunc example_numerics [0] [1] None 1000 = Inl PolyfitLinAlg
   \<and> fitfunc example_numerics [1, 2] [3, 4] None 1000
       = Inr ([0, 0], linspace 1 2 1000, map (poly1d [0, 0]) (linspace 1 2 1000))"
proof -
  note a = fitfunc_failures [of "[1, 2]" "[1]" example_numerics None 1000]
  note b = fitfunc_failures [of "[]" "[]" example_numerics "Some 1" 1000]
  note c = fitfunc_failures [of "[0]" "[1]" example_numerics None 1000]
  note d = fitfunc_failures [of "[1, 2]" "[3, 4]" example_numerics None 1000]
  have ex: "argrelextrema [3, 4] (<) = []" "argrelextrema [3, 4] (>) = []"
    by (simp_all add: argrelextrema_def)
  from a have "\<exists>e. fitfunc example_numerics [1, 2] [1] None 1000 = Inl e \<and> exception_class e = TypeError"
    by simp
  moreover from b have "\<exists>e. fitfunc example_numerics [] [] (Some 1) 1000 = Inl e"
    by simp
  moreover from c have "fitfunc example_numerics [0] [1] None 1000 = Inl PolyfitLinAlg"
    by simp
  moreover from d have "fitfunc example_numerics [1, 2] [3, 4] None 1000
       = Inr ([0, 0], linspace 1 2 1000, map (poly1d [0, 0]) (linspace 1 2 1000))"
    by (simp add: ex example_numerics_def arr_min_def arr_max_def)
  ultimately show ?thesis by blast
qed

text \<open>
  C7, as the specification states it (fewer than two points make the fit fail), fails
  on one data point: \<^verbatim>\<open>np.polyfit\<close> accepts it, and the fit is returned.
\<close>

theorem fitfunc_single_point_counterexample:
  "\<not> (\<exists>e. fitfunc example_numerics [1] [1] None 1000 = Inl e)"
  by (simp add: fitfunc_def np_polyfit_def example_numerics_def Let_def)

section \<open>Properties of the key depth\<close>



lemma key_depth_error: "key_depth py_float k X = Inl e \<Longrightarrow> e = CouldNotConvert"
  by (auto simp: key_depth_def Let_def split: keydepth.splits if_splits option.splits)

lemma fitfunc_error:
  "fitfunc nl x y deg sample = Inl e \<Longrightarrow>
     e \<in> {PolyfitDegree, PolyfitEmpty, PolyfitLength, PolyfitLinAlg}"
  by (auto simp: fitfunc_def np_polyfit_def Let_def split: if_splits sum.splits option.splits)

lemma find_limit_error: "find_limit_for_integration ix b = Inl (e, b') \<Longrightarrow> e = EmptyReduction"
  by (auto simp: find_limit_for_integration_def Let_def split: if_splits prod.splits)

lemma area_loop_error: "area_loop q secs st = Inl e \<Longrightarrow> e = UnpackMismatch"
proof (induction q secs st rule: area_loop.induct)
  case (1 q st)
  then show ?case by simp
next
  case (2 q ii pair rest ohmS err_ohmS)
  then show ?case
    by (auto split: list.splits prod.splits)
qed

lemma np_split_error: "np_split xs k = Inl e \<Longrightarrow> e = UnevenSplit"
  by (simp add: np_split_def split: if_splits)

lemma split_roots_error: "split_roots roots = Inl e \<Longrightarrow> e = UnevenSplit"
  by (auto simp: split_roots_def dest: np_split_error split: if_splits)

lemma integration_bounds_error: "integration_bounds frames ix = Inl e \<Longrightarrow> e = EmptyReduction"
  by (auto simp: integration_bounds_def outcome_def dest: find_limit_error split: sum.splits prod.splits)

lemma numerics_error:
  assumes "ohmic_numerics frames nl X Y k sum_flag obj = Inl e"
  shows "e \<in> {PolyfitDegree, PolyfitEmpty, PolyfitLength, PolyfitLinAlg, EmptyReduction,
              UnevenSplit, UnpackMismatch}"
  using assms
  unfolding ohmic_numerics_def Let_def
  by (auto split: sum.splits prod.splits
      dest!: fitfunc_error integration_bounds_error area_loop_error split_roots_error)


lemma arr_max_sort_remdups:
  assumes "xs \<noteq> []"
  shows "arr_max (sort (remdups xs)) = Max (set xs)"
proof -
  have "sort (remdups xs) \<noteq> []" using assms by (metis set_empty set_remdups set_sort)
  from arr_max_Max [OF this] show ?thesis by simp
qed

lemma depth_check_iff:
  assumes obj: "normalise_objective objective = Inr obj"
    and ves: "vesDataOperator draw AB rhoa typeofop = Inr (X, Y)"
    and ne: "snd AB \<noteq> []"
    and key: "key_depth py_float ohmSkey (snd X) = Inr r"
  shows "(ohmicArea frames draw py_float nl AB rhoa typeofop ohmSkey sum_flag objective = Inl StartDepth)
         = (r \<ge> Max (set (snd AB)))"
proof -
  have X: "snd X = sort (remdups (snd AB))" by (rule ves_returns(1) [OF ves])
  then have Xne: "snd X \<noteq> []" using ne by (metis set_empty set_remdups set_sort)
  have mx: "arr_max (snd X) = Max (set (snd AB))"
    unfolding X by (rule arr_max_sort_remdups [OF ne])
  show ?thesis
  proof (cases "r \<ge> Max (set (snd AB))")
    case True
    then show ?thesis
      by (simp add: ohmicArea_def obj ves key Xne mx)
  next
    case False
    have "ohmic_numerics frames nl (snd X) (snd Y) r sum_flag obj \<noteq> Inl StartDepth"
      using numerics_error [of frames nl "snd X" "snd Y" r sum_flag obj StartDepth] by auto
    with False show ?thesis
      by (simp add: ohmicArea_def obj ves key Xne mx)
  qed
qed

text \<open>
  C6, as the code has it. When the objective is accepted, the duplicate reduction
  returns \<open>(X, Y)\<close> for a non-empty dataset and the key depth is read as the number \<open>r\<close>,
  \<open>ohmicArea\<close> raises the key-depth \<^verbatim>\<open>VESError\<close> exactly when \<open>r\<close> is at least the largest
  position, for every numeric library and every recursion budget: nothing is fitted,
  sampled or integrated before the check. The objective check and the duplicate reduction
  do come first.
\<close>

theorem key_depth_check:
  assumes "normalise_objective objective = Inr obj"
    and "vesDataOperator draw AB rhoa typeofop = Inr (X, Y)"
    and "snd AB \<noteq> []"
    and "key_depth py_float ohmSkey (snd X) = Inr r"
  shows "(ohmicArea frames draw py_float nl AB rhoa typeofop ohmSkey sum_flag objective = Inl StartDepth)
         = (r \<ge> Max (set (snd AB)))"
  using assms by (rule depth_check_iff)

theorem key_depth_check_witness:
  "normalise_objective ''ohmS'' = Inr ''ohms''
   \<and> vesDataOperator (\<lambda>ii sel. 0) (Float64, [10, 20, 30]) (Float64, [1, 2, 3]) None
       = Inr ((Float64, [10, 20, 30]), (Float64, [1, 2, 3]))
   \<and> key_depth (\<lambda>s. None) (KeyNum 30) [10, 20, 30] = Inr 30
   \<and> ohmicArea 1000 (\<lambda>ii sel. 0) (\<lambda>s. None) example_numerics (Float64, [10, 20, 30]) (Float64, [1, 2, 3])
         None (KeyNum 30) False ''ohmS'' = Inl StartDepth"
proof -
  have obj: "normalise_objective ''ohmS'' = Inr ''ohms''" by code_simp
  have ves: "vesDataOperator (\<lambda>ii sel. 0) (Float64, [10, 20, 30]) (Float64, [1, 2, 3]) None
       = Inr ((Float64, [10, 20, 30]), (Float64, [1, 2, 3]))" by code_simp
  have ne: "snd (Float64, [10, 20, 30 :: real]) \<noteq> []" by simp
  have key: "key_depth (\<lambda>s. None) (KeyNum 30) (snd (Float64, [10, 20, 30 :: real])) = Inr 30"
    by (simp add: key_depth_def)
  have "(30 :: real) \<ge> Max (set (snd (Float64, [10, 20, 30 :: real])))" by simp
  with key_depth_check [OF obj ves ne key, of 1000 example_numerics False]
  have "ohmicArea 1000 (\<lambda>ii sel. 0) (\<lambda>s. None) example_numerics (Float64, [10, 20, 30]) (Float64, [1, 2, 3])
         None (KeyNum 30) False ''ohmS'' = Inl StartDepth" by simp
  with obj ves key show ?thesis by simp
qed

text \<open>
  C6, as the specification states it, fails on the dataset with positions
  \<open>[10, 10, 10]\<close> and key depth 10: the key depth equals the largest position, but the
  duplicate reduction, which runs first, raises a \<^verbatim>\<open>ValueError\<close>, so no \<^verbatim>\<open>VESError\<close> is
  raised.
\<close>

theorem key_depth_check_counterexample:
  "\<not> ((\<exists>e. ohmicArea 1000 (\<lambda>ii sel. 0) (\<lambda>s. None) example_numerics (Float64, [10, 10, 10]) (Float64, [1, 2, 3])
              None (KeyNum 10) False ''ohmS'' = Inl e \<and> exception_class e = VESError)
       \<longleftrightarrow> (10 :: real) \<ge> Max (set [10, 10, 10]))"
proof -
  have "ohmicArea 1000 (\<lambda>ii sel. 0) (\<lambda>s. None) example_numerics (Float64, [10, 10, 10]) (Float64, [1, 2, 3])
              None (KeyNum 10) False ''ohmS'' = Inl MaskAssignMismatch"
    by code_simp
  then show ?thesis by simp
qed








section \<open>Properties of the integration\<close>

lemma area_loop_spec:
  "area_loop q (enumerate k prs) (ohmS0, err0) = Inr (ohmS, errs) \<Longrightarrow>
   k + length prs \<le> length ohmS0 \<Longrightarrow> length err0 = length ohmS0 \<Longrightarrow>
     length ohmS = length ohmS0 \<and> length errs = length ohmS0
     \<and> (\<forall>i<k. ohmS ! i = ohmS0 ! i \<and> errs ! i = err0 ! i)
     \<and> (\<forall>i<length prs. \<exists>lo hi. prs ! i = [lo, hi]
            \<and> ohmS ! (k + i) = (if fst (q lo hi) < 0 then 0 else fst (q lo hi))
            \<and> errs ! (k + i) = snd (q lo hi))"
proof (induction prs arbitrary: k ohmS0 err0)
  case Nil
  then show ?case by simp
next
  case (Cons p ps)
  from Cons.prems(1) obtain lo hi where p: "p = [lo, hi]"
    by (auto split: list.splits)
  let ?c = "if fst (q lo hi) < 0 then 0 else fst (q lo hi)"
  let ?e = "snd (q lo hi)"
  from Cons.prems(1) p
  have run: "area_loop q (enumerate (Suc k) ps) (ohmS0[k := ?c], err0[k := ?e]) = Inr (ohmS, errs)"
    by (cases "q lo hi") (simp split: if_splits)
  from Cons.prems have len: "Suc k + length ps \<le> length (ohmS0[k := ?c])"
    "length (err0[k := ?e]) = length (ohmS0[k := ?c])" by simp_all
  note ih = Cons.IH [OF run len]
  from Cons.prems have k: "k < length ohmS0" "k < length err0" by simp_all
  have lens: "length ohmS = length ohmS0 \<and> length errs = length ohmS0" using ih by simp
  have before: "\<forall>i<k. ohmS ! i = ohmS0 ! i \<and> errs ! i = err0 ! i"
    using ih by (auto simp: nth_list_update)
  have atk: "ohmS ! k = ?c \<and> errs ! k = ?e"
    using ih k by (auto simp: nth_list_update)
  have after: "\<forall>i<length (p # ps). \<exists>lo hi. (p # ps) ! i = [lo, hi]
            \<and> ohmS ! (k + i) = (if fst (q lo hi) < 0 then 0 else fst (q lo hi))
            \<and> errs ! (k + i) = snd (q lo hi)"
  proof (intro allI impI)
    fix i assume i: "i < length (p # ps)"
    show "\<exists>lo hi. (p # ps) ! i = [lo, hi]
            \<and> ohmS ! (k + i) = (if fst (q lo hi) < 0 then 0 else fst (q lo hi))
            \<and> errs ! (k + i) = snd (q lo hi)"
    proof (cases i)
      case 0
      with p atk show ?thesis by simp
    next
      case (Suc j)
      with i have "j < length ps" by simp
      with ih obtain lo' hi' where "ps ! j = [lo', hi']"
        "ohmS ! (Suc k + j) = (if fst (q lo' hi') < 0 then 0 else fst (q lo' hi'))"
        "errs ! (Suc k + j) = snd (q lo' hi')" by blast
      with Suc show ?thesis by simp
    qed
  qed
  from lens before after show ?case by blast
qed

lemma numerics_returns:
  assumes "ohmic_numerics frames nl X Y key sum_flag obj = Inr (Some (a, errs, roots), view)"
  shows "\<exists>f45 f_rhotl prs ohmS. split_roots roots = Inr prs
     \<and> area_loop (quad nl (\<lambda>x. poly1d f45 x - poly1d f_rhotl x)) (enumerate 0 prs)
           (replicate (length prs) 0, replicate (length prs) 0) = Inr (ohmS, errs)
     \<and> a = (if sum_flag then Summed (sum_list ohmS) else PerInterval ohmS)"
  using assms unfolding ohmic_numerics_def Let_def select_output_def
  by (auto split: sum.splits prod.splits if_splits)


lemma n_samples_ge: "2 \<le> n_samples"
  by (simp add: n_samples_def)

lemma linspace_nth: "i < n \<Longrightarrow> linspace a b n ! i = a + real i * ((b - a) / real (n - 1))"
  by (simp add: linspace_def)

lemma linspace_first: "0 < n \<Longrightarrow> linspace a b n ! 0 = a"
  by (simp add: linspace_nth)

lemma linspace_last: "2 \<le> n \<Longrightarrow> linspace a b n ! (n - 1) = b"
  by (simp add: linspace_nth)

lemma loop2_consecutive:
  "k < n \<Longrightarrow> loop2 (map int [Suc k..<n]) (int k, oc, b) = (int (n - 1), oc, b)"
proof (induction "n - Suc k" arbitrary: k)
  case 0
  then have "n = Suc k" by simp
  then show ?case by simp
next
  case (Suc m)
  then have lt: "Suc k < n" by simp
  then have "[Suc k..<n] = Suc k # [Suc (Suc k)..<n]" by (simp add: upt_conv_Cons)
  moreover have "loop2 (map int [Suc (Suc k)..<n]) (int (Suc k), oc, b) = (int (n - 1), oc, b)"
    using Suc.hyps(1) [of "Suc k"] Suc.hyps(2) lt by simp
  ultimately show ?case by simp
qed

lemma sorted_wrt_map_int_upt: "sorted_wrt (<) (map int [k..<n])"
  by (simp add: sorted_wrt_map sorted_wrt_iff_nth_less)

lemma n_breaks_consecutive: "k < n \<Longrightarrow> n_breaks (int k) (map int [Suc k..<n]) = 0"
proof (induction "n - Suc k" arbitrary: k)
  case 0
  then have "n = Suc k" by simp
  then show ?case by simp
next
  case (Suc m)
  then have lt: "Suc k < n" by simp
  then have "[Suc k..<n] = Suc k # [Suc (Suc k)..<n]" by (simp add: upt_conv_Cons)
  moreover have "n_breaks (int (Suc k)) (map int [Suc (Suc k)..<n]) = 0"
    using Suc.hyps(1) [of "Suc k"] Suc.hyps(2) lt by simp
  ultimately show ?case by simp
qed

text \<open>
  On the index array \<open>0, \<dots>, n - 1\<close> the bounds are \<open>[0, n - 1]\<close>, whatever the recursion
  budget: with no activation left the recursive finder raises, and the iterative one is
  run in its place.
\<close>

lemma integration_bounds_all:
  assumes "0 < n" and "int n < 2 ^ 63"
  shows "integration_bounds frames (map int [0..<n]) = Inr [0, int (n - 1)]"
proof -
  have eq: "map int [0..<n] = 0 # map int [Suc 0..<n]"
    using assms(1) by (simp add: upt_conv_Cons)
  have srt: "sorted_wrt (<) (0 # map int [Suc 0..<n])"
    using sorted_wrt_map_int_upt [of 0 n] eq by simp
  have "int64_index (map int [0..<n])"
    using assms(2) by (auto simp: int64_index_def list_all_iff)
  then have rng: "int64_index (0 # map int [Suc 0..<n])" by (simp only: eq)
  have res: "fin (loop2 (map int [Suc 0..<n]) (0, 0, [])) = [0, int (n - 1)]"
    using loop2_consecutive [OF assms(1), of 0 "[]"] by (simp add: fin_def)
  show ?thesis
  proof (cases frames)
    case 0
    then show ?thesis
      using find_limit_closed [OF srt rng, of "[]"] res
      by (simp add: integration_bounds_def eq find_bound_for_integration.simps outcome_def)
  next
    case (Suc f)
    have "n_breaks 0 (map int [Suc 0..<n]) < frames"
      using n_breaks_consecutive [OF assms(1)] Suc by simp
    from find_bound_enough [OF srt rng this, of "[]"] res show ?thesis
      by (simp add: integration_bounds_def eq)
  qed
qed

lemma poly1d_zeros: "poly1d [0, 0] x = 0"
  by (simp add: poly1d_def)

lemma example_fit:
  "fitfunc example_numerics [1, 2] [5, 7] None n_samples
     = Inr ([0, 0], linspace 1 2 n_samples, map (poly1d [0, 0]) (linspace 1 2 n_samples))"
proof -
  have "argrelextrema [5, 7] (<) = []" "argrelextrema [5, 7] (>) = []"
    by (simp_all add: argrelextrema_def)
  then show ?thesis
    by (simp add: fitfunc_def np_polyfit_def example_numerics_def arr_min_def arr_max_def Let_def)
qed

lemma example_indexes:
  "basement_indexes example_numerics [0, 0] [1, 2] 1
     = (\<lambda>x. 7071 / 10000 * x + 0, linspace 1 2 n_samples, map int [0..<n_samples])"
proof -
  have pos: "\<And>i. i < n_samples \<Longrightarrow> 0 < linspace 1 2 n_samples ! i"
    by (simp add: linspace_nth add_pos_nonneg)
  have "filter (\<lambda>i. \<not> map2 (-) (map (\<lambda>x. 7071 / 10000 * x + 0) (linspace 1 2 n_samples))
                         (map (poly1d [0, 0]) (linspace 1 2 n_samples)) ! i < 0
                 \<and> map2 (-) (map (\<lambda>x. 7071 / 10000 * x + 0) (linspace 1 2 n_samples))
                         (map (poly1d [0, 0]) (linspace 1 2 n_samples)) ! i \<noteq> 0)
          [0..<n_samples] = [0..<n_samples]"
    unfolding filter_id_conv
  proof
    fix i assume "i \<in> set [0..<n_samples]"
    then have i: "i < n_samples" by simp
    from pos [OF i] show "\<not> map2 (-) (map (\<lambda>x. 7071 / 10000 * x + 0) (linspace 1 2 n_samples))
                         (map (poly1d [0, 0]) (linspace 1 2 n_samples)) ! i < 0
                 \<and> map2 (-) (map (\<lambda>x. 7071 / 10000 * x + 0) (linspace 1 2 n_samples))
                         (map (poly1d [0, 0]) (linspace 1 2 n_samples)) ! i \<noteq> 0"
      using i by (simp add: linspace_length poly1d_zeros)
  qed
  then show ?thesis
    by (simp add: basement_indexes_def dummy_basement_curve_def example_numerics_def
        poly1d_zeros arr_min_def arr_max_def linspace_length Let_def)
qed

lemma example_numerics_run:
  "ohmic_numerics frames example_numerics [1, 2] [5, 7] 1 False ''ohms''
     = Inr (Some (PerInterval [0], [1 / 2], [1, 2]), None)"
proof -
  have oIx: "argmin [0, 1 :: real] = 0"
    by (simp add: argmin_def arr_min_def)
  have n: "0 < n_samples" "2 \<le> n_samples" using n_samples_ge by simp_all
  have n63: "int n_samples < 2 ^ 63" by (simp add: n_samples_def)
  have r0: "linspace 1 2 n_samples ! 0 = 1" by (rule linspace_first [OF n(1)])
  have r1: "linspace 1 2 n_samples ! (n_samples - Suc 0) = 2"
    using linspace_last [OF n(2), of 1 2] by simp
  have pw: "split_roots [1, 2] = Inr [[1, 2]]" by (simp add: split_roots_def)
  have q: "quad example_numerics = (\<lambda>f a b. (- 1, 1 / 2))" by (simp add: example_numerics_def)
  show ?thesis
    unfolding ohmic_numerics_def
    by (simp add: example_fit oIx example_indexes integration_bounds_all [OF n(1) n63] r0 r1 pw q
        select_output_def Let_def del: upt_Suc)
qed


text \<open>
  A dataset on which the basement line is nowhere above the fitted curve: the
  resistivities \<open>10, 20, 30\<close> at the spacings \<open>1, 2, 3\<close> lie on the line \<open>10 x\<close>, and from
  the key depth \<open>1.6\<close> on, the basement line \<open>0.7071 x + 16\<close> stays below it. The index
  array is empty, both bound finders raise, and \<open>ohmicArea\<close> ends with their
  \<^verbatim>\<open>ValueError\<close> instead of an area.
\<close>

lemma poly1d_line: "poly1d [10, 0] x = 10 * x"
  by (simp add: poly1d_def)

lemma line_fit:
  "fitfunc line_numerics [1, 2, 3] [10, 20, 30] None n_samples
     = Inr ([10, 0], linspace 1 3 n_samples, map (poly1d [10, 0]) (linspace 1 3 n_samples))"
proof -
  have "argrelextrema [10, 20, 30] (<) = []" "argrelextrema [10, 20, 30] (>) = []"
    by (simp_all add: argrelextrema_def numeral_3_eq_3)
  then show ?thesis
    by (simp add: fitfunc_def np_polyfit_def line_numerics_def arr_min_def arr_max_def Let_def)
qed

lemma line_indexes:
  "basement_indexes line_numerics [10, 0] [2, 3] (8 / 5)
     = (\<lambda>x. 7071 / 10000 * x + 16, linspace 2 3 n_samples, [])"
proof -
  have ge: "\<And>i. i < n_samples \<Longrightarrow> 2 \<le> linspace 2 3 n_samples ! i"
    by (simp add: linspace_nth)
  have "filter (\<lambda>i. \<not> map2 (-) (map (\<lambda>x. 7071 / 10000 * x + 16) (linspace 2 3 n_samples))
                         (map (poly1d [10, 0]) (linspace 2 3 n_samples)) ! i < 0
                 \<and> map2 (-) (map (\<lambda>x. 7071 / 10000 * x + 16) (linspace 2 3 n_samples))
                         (map (poly1d [10, 0]) (linspace 2 3 n_samples)) ! i \<noteq> 0)
          [0..<n_samples] = []"
    unfolding filter_empty_conv
  proof
    fix i assume "i \<in> set [0..<n_samples]"
    then have i: "i < n_samples" by simp
    from ge [OF i] have "7071 / 10000 * linspace 2 3 n_samples ! i + 16 - 10 * linspace 2 3 n_samples ! i < 0"
      by simp
    then show "\<not> (\<not> map2 (-) (map (\<lambda>x. 7071 / 10000 * x + 16) (linspace 2 3 n_samples))
                         (map (poly1d [10, 0]) (linspace 2 3 n_samples)) ! i < 0
                 \<and> map2 (-) (map (\<lambda>x. 7071 / 10000 * x + 16) (linspace 2 3 n_samples))
                         (map (poly1d [10, 0]) (linspace 2 3 n_samples)) ! i \<noteq> 0)"
      using i by (simp add: linspace_length poly1d_line)
  qed
  then show ?thesis
    by (simp add: basement_indexes_def dummy_basement_curve_def line_numerics_def
        poly1d_line arr_min_def arr_max_def linspace_length Let_def)
qed

lemma integration_bounds_empty: "integration_bounds frames [] = Inl EmptyReduction"
  by (cases frames)
    (simp_all add: integration_bounds_def find_bound_for_integration.simps
      find_limit_for_integration_def outcome_def)

lemma ohmicArea_no_intersection:
  "ohmicArea frames (\<lambda>ii sel. 0) (\<lambda>s. None) line_numerics (Float64, [1, 2, 3]) (Float64, [10, 20, 30])
       None (KeyNum (8 / 5)) False ''ohmS'' = Inl EmptyReduction"
proof -
  have obj: "normalise_objective ''ohmS'' = Inr ''ohms''" by code_simp
  have ves: "vesDataOperator (\<lambda>ii sel. 0) (Float64, [1, 2, 3]) (Float64, [10, 20, 30]) None
       = Inr ((Float64, [1, 2, 3]), (Float64, [10, 20, 30]))" by code_simp
  have oIx: "argmin [3 / 5, 2 / 5, 7 / 5 :: real] = 1"
    by (simp add: argmin_def arr_min_def)
  have num: "ohmic_numerics frames line_numerics [1, 2, 3] [10, 20, 30] (8 / 5) False ''ohms''
      = Inl EmptyReduction"
    unfolding ohmic_numerics_def
    by (simp add: line_fit oIx line_indexes integration_bounds_empty Let_def)
  show ?thesis
    by (simp add: ohmicArea_def obj ves key_depth_def arr_max_def num)
qed

text \<open>
  C1. Whenever \<open>ohmicArea\<close> returns the area tuple, every area is non-negative (and so is
  their sum when \<^verbatim>\<open>sum\<close> is set). The areas and error estimates come from one quadrature
  per pair of roots: an area is the integral, replaced by zero when the integral is
  negative, and the error estimate is stored as the quadrature returned it. The integrand
  is the difference \<open>f45 - f_rhotl\<close> of the two fitted polynomials.
\<close>

theorem areas_nonnegative:
  assumes "ohmicArea frames draw py_float nl AB rhoa typeofop ohmSkey sum_flag objective
             = Inr (Some (a, errs, roots), view)"
  shows "(case a of PerInterval ohmS \<Rightarrow> (\<forall>v \<in> set ohmS. 0 \<le> v) | Summed t \<Rightarrow> 0 \<le> t)
     \<and> (\<exists>f45 f_rhotl prs ohmS. split_roots roots = Inr prs
           \<and> a = (if sum_flag then Summed (sum_list ohmS) else PerInterval ohmS)
           \<and> length ohmS = length prs \<and> length errs = length prs
           \<and> (\<forall>i<length prs. \<exists>lo hi. prs ! i = [lo, hi]
                \<and> ohmS ! i = (let (values, err) = quad nl (\<lambda>x. poly1d f45 x - poly1d f_rhotl x) lo hi
                              in if values < 0 then 0 else values)
                \<and> errs ! i = snd (quad nl (\<lambda>x. poly1d f45 x - poly1d f_rhotl x) lo hi)))"
proof -
  from assms obtain X Y key obj where
    num: "ohmic_numerics frames nl X Y key sum_flag obj = Inr (Some (a, errs, roots), view)"
    by (auto simp: ohmicArea_def split: sum.splits prod.splits if_splits)
  from numerics_returns [OF num] obtain f45 f_rhotl prs ohmS where
    prs: "split_roots roots = Inr prs"
    and loop: "area_loop (quad nl (\<lambda>x. poly1d f45 x - poly1d f_rhotl x)) (enumerate 0 prs)
           (replicate (length prs) 0, replicate (length prs) 0) = Inr (ohmS, errs)"
    and a: "a = (if sum_flag then Summed (sum_list ohmS) else PerInterval ohmS)"
    by blast
  let ?q = "quad nl (\<lambda>x. poly1d f45 x - poly1d f_rhotl x)"
  from area_loop_spec [OF loop]
  have len: "length ohmS = length prs" "length errs = length prs"
    and each: "\<forall>i<length prs. \<exists>lo hi. prs ! i = [lo, hi]
            \<and> ohmS ! i = (if fst (?q lo hi) < 0 then 0 else fst (?q lo hi))
            \<and> errs ! i = snd (?q lo hi)"
    by simp_all
  have nonneg: "\<forall>v \<in> set ohmS. 0 \<le> v"
  proof
    fix v assume "v \<in> set ohmS"
    then obtain i where i: "i < length ohmS" "v = ohmS ! i" by (auto simp: in_set_conv_nth)
    with each len obtain lo hi where "v = (if fst (?q lo hi) < 0 then 0 else fst (?q lo hi))"
      by auto
    then show "0 \<le> v" by simp
  qed
  then have "0 \<le> sum_list ohmS" by (simp add: sum_list_nonneg)
  with nonneg a have first: "case a of PerInterval ohmS \<Rightarrow> (\<forall>v \<in> set ohmS. 0 \<le> v) | Summed t \<Rightarrow> 0 \<le> t"
    by simp
  have each': "\<forall>i<length prs. \<exists>lo hi. prs ! i = [lo, hi]
                \<and> ohmS ! i = (let (values, err) = ?q lo hi in if values < 0 then 0 else values)
                \<and> errs ! i = snd (?q lo hi)"
    using each by (simp add: case_prod_beta)
  from first prs a len each' show ?thesis by blast
qed

theorem areas_nonnegative_witness:
  "ohmicArea 1000 (\<lambda>ii sel. 0) (\<lambda>s. None) example_numerics (Float64, [1, 2]) (Float64, [5, 7])
       None (KeyNum 1) False ''ohmS'' = Inr (Some (PerInterval [0], [1 / 2], [1, 2]), None)
   \<and> (0 :: real) \<le> [0] ! 0"
proof -
  have obj: "normalise_objective ''ohmS'' = Inr ''ohms''" by code_simp
  have ves: "vesDataOperator (\<lambda>ii sel. 0) (Float64, [1, 2]) (Float64, [5, 7]) None
       = Inr ((Float64, [1, 2]), (Float64, [5, 7]))" by code_simp
  have run: "ohmicArea 1000 (\<lambda>ii sel. 0) (\<lambda>s. None) example_numerics (Float64, [1, 2]) (Float64, [5, 7])
       None (KeyNum 1) False ''ohmS'' = Inr (Some (PerInterval [0], [1 / 2], [1, 2]), None)"
    by (simp add: ohmicArea_def obj ves key_depth_def arr_max_def example_numerics_run)
  from areas_nonnegative [OF run] have "\<forall>v \<in> set [0 :: real]. 0 \<le> v" by simp
  then have "(0 :: real) \<le> [0] ! 0" by simp
  with run show ?thesis by simp
qed


end
